theory Spec2Isabelle
  imports Main "HOL-Library.Word"
begin

unbundle bit_operations_syntax

section \<open>The C library as wprintJNI.c uses it\<close>

text \<open>
  Strings are C strings: lists of bytes without the terminating NUL. The character
  classes are those of the "C" locale.
\<close>

definition isspace :: "char \<Rightarrow> bool" where
  "isspace c = (c = CHR '' '' \<or> c = CHR 0x09 \<or> c = CHR 0x0A \<or> c = CHR 0x0B
                \<or> c = CHR 0x0C \<or> c = CHR 0x0D)"

definition isdigit :: "char \<Rightarrow> bool" where
  "isdigit c = (48 \<le> (of_char c :: nat) \<and> (of_char c :: nat) \<le> 57)"

definition isxdigit :: "char \<Rightarrow> bool" where
  "isxdigit c = (isdigit c \<or> (65 \<le> (of_char c :: nat) \<and> (of_char c :: nat) \<le> 70)
                 \<or> (97 \<le> (of_char c :: nat) \<and> (of_char c :: nat) \<le> 102))"

definition isalpha :: "char \<Rightarrow> bool" where
  "isalpha c = ((65 \<le> (of_char c :: nat) \<and> (of_char c :: nat) \<le> 90)
                \<or> (97 \<le> (of_char c :: nat) \<and> (of_char c :: nat) \<le> 122))"

definition tolower :: "char \<Rightarrow> char" where
  "tolower c = (if 65 \<le> (of_char c :: nat) \<and> (of_char c :: nat) \<le> 90
                then char_of ((of_char c :: nat) + 32) else c)"

subsection \<open>strtod, as far as its end pointer goes\<close>

text \<open>
  \<open>_isNumeric\<close> only looks at where \<open>strtod\<close> stops. \<open>strtod_rest s\<close> is the part of
  \<open>s\<close> the end pointer is left at (C11 7.22.1.3): after optional white space and an
  optional sign, the longest prefix that is a decimal floating constant, a hexadecimal
  floating constant, INF, INFINITY, NAN or NAN(n-char-sequence), ignoring case; the
  whole of \<open>s\<close> when there is no such prefix.
\<close>

definition opt_sign :: "string \<Rightarrow> string" where
  "opt_sign s = (case s of [] \<Rightarrow> s
                 | c # r \<Rightarrow> if c = CHR ''+'' \<or> c = CHR ''-'' then r else s)"

definition opt_exponent :: "char \<Rightarrow> string \<Rightarrow> string" where
  "opt_exponent m s =
     (case s of [] \<Rightarrow> s
      | c # r \<Rightarrow>
          if tolower c = m then
            (case opt_sign r of [] \<Rightarrow> s
             | d # ds \<Rightarrow> if isdigit d then dropWhile isdigit ds else s)
          else s)"

definition float_body :: "(char \<Rightarrow> bool) \<Rightarrow> char \<Rightarrow> string \<Rightarrow> string option" where
  "float_body dig m s =
     (let i = takeWhile dig s; r = dropWhile dig s in
      case r of
        [] \<Rightarrow> if i = [] then None else Some []
      | c # r' \<Rightarrow>
          if c = CHR ''.'' then
            (if i = [] \<and> takeWhile dig r' = [] then None
             else Some (opt_exponent m (dropWhile dig r')))
          else if i = [] then None
          else Some (opt_exponent m r))"

definition dec_float :: "string \<Rightarrow> string option" where
  "dec_float s = float_body isdigit (CHR ''e'') s"

definition hex_float :: "string \<Rightarrow> string option" where
  "hex_float s =
     (case s of
        z # x # r \<Rightarrow>
          if z = CHR ''0'' \<and> tolower x = CHR ''x'' then float_body isxdigit (CHR ''p'') r
          else None
      | _ \<Rightarrow> None)"

definition match_ci :: "string \<Rightarrow> string \<Rightarrow> string option" where
  "match_ci p s =
     (if length p \<le> length s \<and> map tolower (take (length p) s) = p
      then Some (drop (length p) s) else None)"

definition nan_chars :: "string \<Rightarrow> string" where
  "nan_chars r =
     (case r of [] \<Rightarrow> r
      | c # r' \<Rightarrow>
          if c = CHR ''('' then
            (case dropWhile (\<lambda>d. isdigit d \<or> isalpha d \<or> d = CHR ''_'') r' of
               [] \<Rightarrow> r
             | d # t \<Rightarrow> if d = CHR '')'' then t else r)
          else r)"

definition inf_nan :: "string \<Rightarrow> string option" where
  "inf_nan s =
     (case match_ci ''infinity'' s of Some r \<Rightarrow> Some r
      | None \<Rightarrow>
     (case match_ci ''inf'' s of Some r \<Rightarrow> Some r
      | None \<Rightarrow>
     (case match_ci ''nan'' s of Some r \<Rightarrow> Some (nan_chars r)
      | None \<Rightarrow> None)))"

definition strtod_rest :: "string \<Rightarrow> string" where
  "strtod_rest s =
     (let u = opt_sign (dropWhile isspace s) in
      case inf_nan u of Some r \<Rightarrow> r
      | None \<Rightarrow>
     (case hex_float u of Some r \<Rightarrow> r
      | None \<Rightarrow>
     (case dec_float u of Some r \<Rightarrow> r
      | None \<Rightarrow> s)))"

subsection \<open>atoi and the \<open>%d\<close> of snprintf\<close>

fun atoi_digits :: "int \<Rightarrow> string \<Rightarrow> int" where
  "atoi_digits acc [] = acc"
| "atoi_digits acc (c # cs) =
     (if isdigit c then atoi_digits (acc * 10 + (of_char c - 48)) cs else acc)"

definition atoi :: "string \<Rightarrow> int" where
  "atoi s =
     (case dropWhile isspace s of [] \<Rightarrow> 0
      | c # r \<Rightarrow>
          if c = CHR ''-'' then - atoi_digits 0 r
          else if c = CHR ''+'' then atoi_digits 0 r
          else atoi_digits 0 (c # r))"

fun show_nat :: "nat \<Rightarrow> string" where
  "show_nat n =
     (if n < 10 then [char_of (48 + n)]
      else show_nat (n div 10) @ [char_of (48 + n mod 10)])"

declare show_nat.simps [simp del]

definition show_int :: "int \<Rightarrow> string" where
  "show_int i = (if i < 0 then CHR ''-'' # show_nat (nat (- i)) else show_nat (nat i))"

text \<open>\<open>strtok(s, ",")\<close> called until it returns NULL: the non-empty runs between commas.\<close>

fun strtok_from :: "string \<Rightarrow> string \<Rightarrow> string list" where
  "strtok_from cur [] = (if cur = [] then [] else [cur])"
| "strtok_from cur (c # cs) =
     (if c = CHR '','' then (if cur = [] then strtok_from [] cs else cur # strtok_from [] cs)
      else strtok_from (cur @ [c]) cs)"

definition strtok_all :: "string \<Rightarrow> string list" where
  "strtok_all s = strtok_from [] s"

section \<open>Numeric Token Validator: \<open>_isNumeric\<close>\<close>

definition isNumeric :: "string \<Rightarrow> bool" where
  "isNumeric s =
     (case s of [] \<Rightarrow> False
      | c # _ \<Rightarrow> if isspace c then False else strtod_rest s = [])"

section \<open>Page-Range Parser: \<open>_order_pdf_pages\<close>\<close>

text \<open>
  C leaves a write or a read outside an array undefined. The model makes each such
  access a result of its own, so that a run that returns \<open>Inr\<close> is a run of the C code
  that stays inside its arrays.
\<close>

datatype mem_error =
    TokenBufferOverflow nat
  | TokenUnterminated
  | PagesArrayOverflow int
  | RangeStringUnterminated

text \<open>
  The scanning loop (lines 271 to 289). \<open>num_begin_ary\<close> and \<open>num_end_ary\<close> are the two
  \<open>char[5]\<close> buffers, zeroed before the loop.
\<close>

record scan_state =
  num_begin_ary :: "char list"
  num_end_ary :: "char list"
  num_counter :: nat
  dash_encountered :: bool

definition NUL :: char where
  "NUL = CHR 0x00"

definition init_scan :: scan_state where
  "init_scan = \<lparr>num_begin_ary = replicate 5 NUL, num_end_ary = replicate 5 NUL,
                 num_counter = 0, dash_encountered = False\<rparr>"

definition scan_char :: "scan_state \<Rightarrow> char \<Rightarrow> mem_error + scan_state" where
  "scan_char s c =
     (if isspace c then Inr s
      else if c = CHR ''-'' then Inr (s\<lparr>num_counter := 0, dash_encountered := True\<rparr>)
      else if \<not> dash_encountered s then
        (if num_counter s < length (num_begin_ary s)
         then Inr (s\<lparr>num_begin_ary := (num_begin_ary s)[num_counter s := c],
                      num_counter := Suc (num_counter s)\<rparr>)
         else Inl (TokenBufferOverflow (num_counter s)))
      else
        (if num_counter s < length (num_end_ary s)
         then Inr (s\<lparr>num_end_ary := (num_end_ary s)[num_counter s := c],
                      num_counter := Suc (num_counter s)\<rparr>)
         else Inl (TokenBufferOverflow (num_counter s))))"

fun scan_loop :: "scan_state \<Rightarrow> string \<Rightarrow> mem_error + scan_state" where
  "scan_loop s [] = Inr s"
| "scan_loop s (c # cs) =
     (case scan_char s c of Inl e \<Rightarrow> Inl e | Inr s' \<Rightarrow> scan_loop s' cs)"

text \<open>
  Reading a buffer as a C string: up to its first NUL. A buffer with no NUL in it is
  read past its end.
\<close>

definition c_str :: "char list \<Rightarrow> mem_error + string" where
  "c_str buf = (if NUL \<in> set buf then Inr (takeWhile (\<lambda>c. c \<noteq> NUL) buf)
                else Inl TokenUnterminated)"

text \<open>
  The two tokens of a segment, as the rest of \<open>_order_pdf_pages\<close> reads them: after the
  loop and after line 293 has put \<open>'0'\<close> into the first cell of the end buffer when no
  dash was seen. Both buffers are read to their NUL on every path: by \<open>strtod\<close> when the
  token is numeric, by the \<open>%s\<close> of the error message otherwise.
\<close>

definition scan_tokens :: "string \<Rightarrow> mem_error + (string \<times> string)" where
  "scan_tokens page_range_split =
     (case scan_loop init_scan page_range_split of
        Inl e \<Rightarrow> Inl e
      | Inr s \<Rightarrow>
          (let end_ary = (if \<not> dash_encountered s then (num_end_ary s)[0 := CHR ''0'']
                          else num_end_ary s) in
           case c_str (num_begin_ary s) of
             Inl e \<Rightarrow> Inl e
           | Inr b \<Rightarrow> (case c_str end_ary of Inl e \<Rightarrow> Inl e | Inr e \<Rightarrow> Inr (b, e))))"

text \<open>
  The caller's array of pages and its fill index, both passed by pointer. The resolved
  page list is the first \<open>num_index\<close> cells.
\<close>

record pages_state =
  pages_ary :: "int list"
  num_index :: int

definition resolved :: "pages_state \<Rightarrow> int list" where
  "resolved st = take (nat (num_index st)) (pages_ary st)"

text \<open>The two storing loops (lines 319 to 322 and 331 to 334), bound re-read each round.\<close>

function store_ascending :: "int \<Rightarrow> int \<Rightarrow> int \<Rightarrow> pages_state \<Rightarrow> mem_error + pages_state" where
  "store_ascending num_end num_begin count st =
     (if count \<le> num_index st + num_end - num_begin then
        (if 0 \<le> count \<and> count < int (length (pages_ary st)) then
           store_ascending num_end (num_begin + 1) (count + 1)
             (st\<lparr>pages_ary := (pages_ary st)[nat count := num_begin],
                 num_index := num_index st + 1\<rparr>)
         else Inl (PagesArrayOverflow count))
      else Inr st)"
  by pat_completeness auto
termination
  by (relation "measure (\<lambda>(num_end, num_begin, count, st).
        nat (num_index st + num_end - num_begin - count + 1))") auto

function store_descending :: "int \<Rightarrow> int \<Rightarrow> int \<Rightarrow> pages_state \<Rightarrow> mem_error + pages_state" where
  "store_descending num_end num_begin count st =
     (if count \<le> num_index st + num_begin - num_end then
        (if 0 \<le> count \<and> count < int (length (pages_ary st)) then
           store_descending num_end (num_begin - 1) (count + 1)
             (st\<lparr>pages_ary := (pages_ary st)[nat count := num_begin],
                 num_index := num_index st + 1\<rparr>)
         else Inl (PagesArrayOverflow count))
      else Inr st)"
  by pat_completeness auto
termination
  by (relation "measure (\<lambda>(num_end, num_begin, count, st).
        nat (num_index st + num_begin - num_end - count + 1))") auto

declare store_ascending.simps [simp del]
declare store_descending.simps [simp del]

definition order_pdf_pages :: "int \<Rightarrow> pages_state \<Rightarrow> string \<Rightarrow> mem_error + (bool \<times> pages_state)" where
  "order_pdf_pages num_pages st page_range_split =
     (case scan_tokens page_range_split of
        Inl e \<Rightarrow> Inl e
      | Inr (b, e) \<Rightarrow>
          if isNumeric b \<and> isNumeric e then
            (let num_begin = atoi b;
                 num_end = (if atoi e = 0 then num_begin else atoi e) in
             if num_begin > 0 \<and> num_end > 0 then
               (if num_begin \<le> num_pages \<and> num_end \<le> num_pages then
                  (if num_end \<ge> num_begin then
                     (case store_ascending (if num_end > num_pages then num_pages else num_end)
                             num_begin (num_index st) st of
                        Inl err \<Rightarrow> Inl err
                      | Inr st' \<Rightarrow> Inr (True, st'))
                   else
                     (case store_descending num_end
                             (if num_begin > num_pages then num_pages else num_begin)
                             (num_index st) st of
                        Inl err \<Rightarrow> Inl err
                      | Inr st' \<Rightarrow> Inr (True, st')))
                else Inr (False, st))
             else Inr (False, st))
          else Inr (False, st))"

section \<open>Page-Range Resolver: \<open>_get_pdf_page_range\<close>\<close>

definition MAX_NUM_PAGES :: nat where
  "MAX_NUM_PAGES = 2000"

text \<open>
  The job's page range is a Java string. \<open>GetStringUTFChars\<close> gives its bytes in modified
  UTF-8 (no NUL byte inside), \<open>GetStringLength\<close> its number of UTF-16 units: every unit
  is encoded as one byte that is not a continuation byte \<open>10xxxxxx\<close>, then continuation
  bytes.
\<close>

definition GetStringLength :: "string \<Rightarrow> nat" where
  "GetStringLength s =
     length (filter (\<lambda>c. \<not> (128 \<le> (of_char c :: nat) \<and> (of_char c :: nat) < 192)) s)"

text \<open>
  Lines 357 to 377: the copy of the requested range, NULL when absent or empty. A Java
  string that is not empty has at least one unit, so its copy is not empty either and
  line 375 prints a string.
\<close>

definition requested_range :: "string option \<Rightarrow> string option" where
  "requested_range pageRangeObject =
     (case pageRangeObject of
        None \<Rightarrow> None
      | Some pageRange \<Rightarrow>
          if pageRange \<noteq> [] then
            (let page_range = take (GetStringLength pageRange) pageRange in
             if page_range = [] then None else Some page_range)
          else None)"

text \<open>\<open>snprintf(buf, MAX_NUM_PAGES, "1-%d", num_pages)\<close>.\<close>

definition full_range :: "int \<Rightarrow> string" where
  "full_range num_pages = take (MAX_NUM_PAGES - 1) (''1-'' @ show_int num_pages)"

text \<open>
  Lines 379 to 387: the string that \<open>strtok\<close> splits, which is the requested range or
  \<open>"1-N"\<close> when none is requested, and the string reported back in \<open>page_range_str\<close>.
  The caller's \<open>page_range_str\<close> is a zeroed \<open>char[MAX_NUM_PAGES]\<close>. Line 386 copies at
  most \<open>MAX_NUM_PAGES\<close> bytes of the requested range into it with \<open>strncpy\<close>, which adds
  no NUL when the range has that many bytes or more; line 389 then prints the buffer
  with \<open>%s\<close> and reads past its end.
\<close>

definition range_to_split :: "string option \<Rightarrow> int \<Rightarrow> string" where
  "range_to_split pageRangeObject num_pages =
     (case requested_range pageRangeObject of
        None \<Rightarrow> full_range num_pages
      | Some page_range \<Rightarrow> page_range)"

definition initial_range_str :: "string option \<Rightarrow> int \<Rightarrow> mem_error + string" where
  "initial_range_str pageRangeObject num_pages =
     (case requested_range pageRangeObject of
        None \<Rightarrow> Inr (full_range num_pages)
      | Some page_range \<Rightarrow>
          if length page_range < MAX_NUM_PAGES then Inr page_range
          else Inl RangeStringUnterminated)"

text \<open>
  Line 392, \<open>memset(pages_ary, 0, MAX_NUM_PAGES)\<close>: the count is in bytes, so with 4-byte
  ints the first \<open>MAX_NUM_PAGES div 4\<close> cells are zeroed and the others keep what they
  held.
\<close>

definition memset_pages :: "int list \<Rightarrow> mem_error + int list" where
  "memset_pages ary =
     (if MAX_NUM_PAGES div 4 \<le> length ary
      then Inr (replicate (MAX_NUM_PAGES div 4) 0 @ drop (MAX_NUM_PAGES div 4) ary)
      else Inl (PagesArrayOverflow (int (length ary))))"

text \<open>
  Lines 393 to 404: one call of \<open>_order_pdf_pages\<close> per token; at the first token that
  fails, the reported string becomes \<open>"1-N"\<close>, that string is parsed with the same array
  and the same index, and the loop ends.
\<close>

fun range_loop :: "int \<Rightarrow> string \<Rightarrow> pages_state \<Rightarrow> string list
                    \<Rightarrow> mem_error + (string \<times> pages_state)" where
  "range_loop num_pages page_range_str st [] = Inr (page_range_str, st)"
| "range_loop num_pages page_range_str st (page_range_split # rest) =
     (case order_pdf_pages num_pages st page_range_split of
        Inl e \<Rightarrow> Inl e
      | Inr (succeeded, st') \<Rightarrow>
          if \<not> succeeded then
            (case order_pdf_pages num_pages st' (full_range num_pages) of
               Inl e \<Rightarrow> Inl e
             | Inr (again, st'') \<Rightarrow> Inr (full_range num_pages, st''))
          else range_loop num_pages page_range_str st' rest)"

definition get_pdf_page_range :: "string option \<Rightarrow> pages_state \<Rightarrow> int
                                   \<Rightarrow> mem_error + (string \<times> pages_state)" where
  "get_pdf_page_range pageRangeObject st num_pages =
     (case initial_range_str pageRangeObject num_pages of
        Inl e \<Rightarrow> Inl e
      | Inr page_range_str \<Rightarrow>
          (case memset_pages (pages_ary st) of
             Inl e \<Rightarrow> Inl e
           | Inr ary \<Rightarrow>
               range_loop num_pages page_range_str (st\<lparr>pages_ary := ary\<rparr>)
                 (strtok_all (range_to_split pageRangeObject num_pages))))"

text \<open>
  The call of line 1854: a row of \<open>pages_ary[len][MAX_NUM_PAGES]\<close>, which is not
  initialised, and \<open>page_range_arr[pageIndex] = 0\<close>.
\<close>

definition resolve_document :: "string option \<Rightarrow> int list \<Rightarrow> int
                                 \<Rightarrow> mem_error + (string \<times> pages_state)" where
  "resolve_document pageRangeObject row num_pages =
     get_pdf_page_range pageRangeObject \<lparr>pages_ary = row, num_index = 0\<rparr> num_pages"

text \<open>
  What the caller reads back: the reported range string and the resolved page list,
  which is the first \<open>page_range_arr[pageIndex]\<close> cells of the row.
\<close>

definition resolve_pages :: "string option \<Rightarrow> int list \<Rightarrow> int
                              \<Rightarrow> mem_error + (string \<times> int list)" where
  "resolve_pages pageRangeObject row num_pages =
     (case resolve_document pageRangeObject row num_pages of
        Inl e \<Rightarrow> Inl e
      | Inr (page_range_str, st) \<Rightarrow> Inr (page_range_str, resolved st))"

text \<open>
  The parsed bounds of a segment (lines 297 to 306): the two tokens must be numeric,
  and an end of 0 stands for the begin. \<open>None\<close> when a token is not numeric or does not
  fit its buffer.
\<close>

definition segment_bounds :: "string \<Rightarrow> (int \<times> int) option" where
  "segment_bounds page_range_split =
     (case scan_tokens page_range_split of
        Inl err \<Rightarrow> None
      | Inr (b, e) \<Rightarrow>
          if isNumeric b \<and> isNumeric e
          then Some (atoi b, if atoi e = 0 then atoi b else atoi e)
          else None)"

text \<open>
  The test of lines 297 to 311 on a segment, which decides whether \<open>_order_pdf_pages\<close>
  stores pages and returns true: both tokens numeric and both bounds between 1 and
  the page count.
\<close>

definition segment_succeeds :: "int \<Rightarrow> string \<Rightarrow> bool" where
  "segment_succeeds num_pages page_range_split =
     (case segment_bounds page_range_split of
        None \<Rightarrow> False
      | Some (num_begin, num_end) \<Rightarrow>
          num_begin > 0 \<and> num_end > 0 \<and> num_begin \<le> num_pages \<and> num_end \<le> num_pages)"

text \<open>
  The run of pages the specification gives a segment with bounds \<open>begin\<close> and \<open>end\<close>:
  ascending when \<open>end \<ge> begin\<close>, descending otherwise.
\<close>

definition page_run :: "int \<Rightarrow> int \<Rightarrow> int list" where
  "page_run num_begin num_end =
     (if num_end \<ge> num_begin then [num_begin..num_end] else rev [num_end..num_begin])"

section \<open>What lib_wprint.h and the JVM provide\<close>

text \<open>
  The header lib_wprint.h is not part of the sources at hand. Its macros and the sizes
  of its struct fields are taken as parameters, collected in one record:
  \<open>sizeof_print_scaling_default\<close> is \<open>sizeof(caps.print_scaling_default)\<close>,
  \<open>sizeof_params_print_scaling\<close> is \<open>sizeof(params.print_scaling)\<close>, \<open>reason_mask\<close> gives
  each macro \<open>JOB_FAIL_REASON_\<dots>\<close> and \<open>BLOCKED_REASON_\<dots>\<close> its value, and
  \<open>int_shift_undefined i\<close> is what \<open>1 << i\<close> yields on an \<open>int\<close> for \<open>i \<ge> 31\<close>, where C
  leaves it undefined. The status codes and enumerations are distinct constants (they
  label the cases of one \<open>switch\<close>), so they are datatypes with one more constructor
  for every other value.
\<close>

record lib_wprint =
  MIME_TYPE_PDF :: string
  PRINT_FORMAT_PDF :: string
  MAX_PRINT_SCALING_LENGTH :: nat
  sizeof_print_scaling_default :: nat
  sizeof_params_print_scaling :: nat
  IPP_JOB_STATE_REASON_MAX_VALUE :: nat
  PRINT_STATUS_MAX_STATE :: nat
  reason_mask :: "string \<Rightarrow> 64 word"
  int_shift_undefined :: "nat \<Rightarrow> 64 word"

datatype status = OK | ERROR | CANCELLED | CORRUPT | BAD_CERTIFICATE | OTHER_STATUS

datatype duplex_t = DUPLEX_MODE_NONE | DUPLEX_MODE_OTHER nat

datatype job_state = JOB_QUEUED | JOB_RUNNING | JOB_BLOCKED | JOB_DONE | JOB_STATE_OTHER

text \<open>
  The fields of \<open>wprint_job_params_t\<close> and \<open>printer_capabilities_t\<close> that
  \<open>nativeStartJob\<close> decides on, and the fields of the Java job parameters it reads
  itself. The other fields pass through unchanged, but for \<open>job_pages_per_set\<close>, the sum
  of the page counts (lines 1930 to 1933), which no property below speaks of.
\<close>

record wprint_job_params_t =
  duplex :: duplex_t
  docCategory :: string
  print_scaling :: string

record printer_capabilities_t =
  faceDownTray :: bool
  print_scalings_supported :: "string list"
  print_scaling_default :: string

record LocalJobParams =
  page_range :: "string option"
  shared_photo :: bool
  preserve_scaling :: bool

text \<open>
  The calls into the print library that a job makes, in the order made. A file name is
  \<open>None\<close> for the NULL pointer. The four margins of \<open>wprintPage\<close> are 0 in every call and
  are left out.
\<close>

datatype lib_call =
    wprintPage (call_handle: int) (page_num: int) (filename: "string option")
               (last_page: bool) (pdf_page: bool)
  | wprintCancelJob int
  | wprintEndJob int

text \<open>
  The library and the PDF renderer are outside the sources: what they answer is a
  parameter. The answer of \<open>wprintPage\<close> may depend on every call made before it.
\<close>

record externals =
  openDocument :: "string \<Rightarrow> int"
  print_format :: string
  wprintStartJob :: "wprint_job_params_t \<Rightarrow> int option"
  wprintPage_result :: "lib_call list \<Rightarrow> lib_call \<Rightarrow> status"

section \<open>Documents: \<open>_is_pdf_doc\<close>, \<open>_get_pdf_page_count\<close>\<close>

definition is_pdf_doc :: "lib_wprint \<Rightarrow> string option \<Rightarrow> string option \<Rightarrow> bool" where
  "is_pdf_doc H mime_type pathname =
     (case mime_type of
        None \<Rightarrow> False
      | Some m \<Rightarrow> (case pathname of None \<Rightarrow> False | Some p \<Rightarrow> m = MIME_TYPE_PDF H))"

definition get_pdf_page_count :: "lib_wprint \<Rightarrow> externals \<Rightarrow> string option \<Rightarrow> string option
                                   \<Rightarrow> bool \<times> int" where
  "get_pdf_page_count H X mime_type pathname =
     (case pathname of
        None \<Rightarrow> (False, 0)
      | Some p \<Rightarrow>
          if \<not> is_pdf_doc H mime_type pathname then (False, 0)
          else (True, if openDocument X p < 0 then 0 else openDocument X p))"

section \<open>Page-Order Composer within a document: \<open>_print_pdf_pages\<close>\<close>

function print_face_down :: "externals \<Rightarrow> int \<Rightarrow> string \<Rightarrow> int \<Rightarrow> int list \<Rightarrow> int \<Rightarrow> status
                              \<Rightarrow> lib_call list \<Rightarrow> mem_error + (status \<times> lib_call list)" where
  "print_face_down X job_handle pathname num_pages pages page_index result log =
     (if page_index < num_pages then
        (if 0 \<le> page_index \<and> page_index < int (length pages) then
           (if wprintPage_result X log
                 (wprintPage job_handle (pages ! nat page_index) (Some pathname) False True) \<noteq> OK
            then Inr (wprintPage_result X log
                        (wprintPage job_handle (pages ! nat page_index) (Some pathname) False True),
                      log @ [wprintPage job_handle (pages ! nat page_index) (Some pathname) False True])
            else print_face_down X job_handle pathname num_pages pages (page_index + 1) OK
                   (log @ [wprintPage job_handle (pages ! nat page_index) (Some pathname) False True]))
         else Inl (PagesArrayOverflow page_index))
      else Inr (result, log))"
  by pat_completeness auto
termination
  by (relation "measure (\<lambda>(X, job_handle, pathname, num_pages, pages, page_index, result, log).
        nat (num_pages - page_index))") auto

function print_face_up :: "externals \<Rightarrow> int \<Rightarrow> string \<Rightarrow> int list \<Rightarrow> int \<Rightarrow> status
                            \<Rightarrow> lib_call list \<Rightarrow> mem_error + (status \<times> lib_call list)" where
  "print_face_up X job_handle pathname pages page_index result log =
     (if page_index \<ge> 0 then
        (if page_index < int (length pages) then
           (if wprintPage_result X log
                 (wprintPage job_handle (pages ! nat page_index) (Some pathname) False True) \<noteq> OK
            then Inr (wprintPage_result X log
                        (wprintPage job_handle (pages ! nat page_index) (Some pathname) False True),
                      log @ [wprintPage job_handle (pages ! nat page_index) (Some pathname) False True])
            else print_face_up X job_handle pathname pages (page_index - 1) OK
                   (log @ [wprintPage job_handle (pages ! nat page_index) (Some pathname) False True]))
         else Inl (PagesArrayOverflow page_index))
      else Inr (result, log))"
  by pat_completeness auto
termination
  by (relation "measure (\<lambda>(X, job_handle, pathname, pages, page_index, result, log).
        nat (page_index + 1))") auto

declare print_face_down.simps [simp del]
declare print_face_up.simps [simp del]

definition print_pdf_pages :: "externals \<Rightarrow> int \<Rightarrow> printer_capabilities_t \<Rightarrow> string \<Rightarrow> int
                                \<Rightarrow> int list \<Rightarrow> lib_call list
                                \<Rightarrow> mem_error + (status \<times> lib_call list)" where
  "print_pdf_pages X job_handle printer_cap pathname num_pages pages log =
     (if faceDownTray printer_cap
      then print_face_down X job_handle pathname num_pages pages 0 ERROR log
      else print_face_up X job_handle pathname pages (num_pages - 1) ERROR log)"

section \<open>\<open>nativeStartJob\<close>\<close>

subsection \<open>Lines 1842 to 1859: resolving the page range of each document\<close>

text \<open>
  \<open>pages_ary[len][MAX_NUM_PAGES]\<close> is not initialised: \<open>stack i j\<close> is what cell \<open>j\<close> of row
  \<open>i\<close> holds at first. \<open>page_range_arr\<close> is zeroed. A document's entry below is its row
  with its cell of \<open>page_range_arr\<close>.
\<close>

definition initial_rows :: "(nat \<Rightarrow> nat \<Rightarrow> int) \<Rightarrow> nat \<Rightarrow> pages_state list" where
  "initial_rows stack len =
     map (\<lambda>i. \<lparr>pages_ary = map (stack i) [0..<MAX_NUM_PAGES], num_index = 0\<rparr>) [0..<len]"

fun resolve_documents :: "lib_wprint \<Rightarrow> externals \<Rightarrow> string option \<Rightarrow> LocalJobParams \<Rightarrow> status
                           \<Rightarrow> (string option \<times> pages_state) list
                           \<Rightarrow> mem_error + pages_state list" where
  "resolve_documents H X mimeTypeStr jobParams result [] = Inr []"
| "resolve_documents H X mimeTypeStr jobParams result ((pageStr, st) # rest) =
     (if result \<noteq> OK then Inr (st # map snd rest)
      else
        (case pageStr of
           None \<Rightarrow>
             (case resolve_documents H X mimeTypeStr jobParams ERROR rest of
                Inl e \<Rightarrow> Inl e
              | Inr sts \<Rightarrow> Inr (st # sts))
         | Some p \<Rightarrow>
             (case get_pdf_page_count H X mimeTypeStr pageStr of
                (False, page_count) \<Rightarrow>
                  (case resolve_documents H X mimeTypeStr jobParams OK rest of
                     Inl e \<Rightarrow> Inl e
                   | Inr sts \<Rightarrow> Inr (st # sts))
              | (True, page_count) \<Rightarrow>
                  (case get_pdf_page_range (page_range jobParams) (st\<lparr>num_index := 0\<rparr>) page_count of
                     Inl e \<Rightarrow> Inl e
                   | Inr (page_range_str, st') \<Rightarrow>
                       (case resolve_documents H X mimeTypeStr jobParams OK rest of
                          Inl e \<Rightarrow> Inl e
                        | Inr sts \<Rightarrow> Inr (st' # sts))))))"

subsection \<open>Lines 1861 to 1877: smart duplex\<close>

definition smart_duplex :: "lib_wprint \<Rightarrow> string option \<Rightarrow> string option list \<Rightarrow> pages_state list
                             \<Rightarrow> wprint_job_params_t \<Rightarrow> wprint_job_params_t" where
  "smart_duplex H mimeTypeStr fileArray docs params =
     (case fileArray of
        [pageStr] \<Rightarrow>
          (if is_pdf_doc H mimeTypeStr pageStr then
             (case docs of
                d # ds \<Rightarrow> if num_index d = 1 then params\<lparr>duplex := DUPLEX_MODE_NONE\<rparr> else params
              | [] \<Rightarrow> params)
           else params\<lparr>duplex := DUPLEX_MODE_NONE\<rparr>)
      | _ \<Rightarrow> params)"

subsection \<open>Lines 1889 to 1928: Scaling Policy Selector\<close>

datatype copy_error = PrintScalingOverflow

text \<open>
  \<open>strlcpy(dst, src, dsize)\<close> into a destination of \<open>cap\<close> bytes that holds \<open>old\<close>: at
  most \<open>dsize - 1\<close> bytes of \<open>src\<close> and a NUL; nothing at all when \<open>dsize\<close> is 0.
\<close>

definition strlcpy :: "nat \<Rightarrow> string \<Rightarrow> string \<Rightarrow> nat \<Rightarrow> copy_error + string" where
  "strlcpy cap old src dsize =
     (if dsize = 0 then Inr old
      else if length (take (dsize - 1) src) < cap then Inr (take (dsize - 1) src)
      else Inl PrintScalingOverflow)"

definition strcasecmp_eq :: "string \<Rightarrow> string \<Rightarrow> bool" where
  "strcasecmp_eq a b = (map tolower a = map tolower b)"

definition choose_print_scaling :: "lib_wprint \<Rightarrow> externals \<Rightarrow> LocalJobParams
                                     \<Rightarrow> wprint_job_params_t \<Rightarrow> printer_capabilities_t
                                     \<Rightarrow> copy_error + string" where
  "choose_print_scaling H X jobParams params caps =
     (if print_format X = PRINT_FORMAT_PDF H then
        (if (strcasecmp_eq (docCategory params) ''Photo'' \<and> shared_photo jobParams)
            \<or> preserve_scaling jobParams then
           (if ''none'' \<in> set (print_scalings_supported caps)
            then strlcpy (MAX_PRINT_SCALING_LENGTH H) [] ''none'' (MAX_PRINT_SCALING_LENGTH H)
            else Inr [])
         else
           (if ''auto'' \<in> set (print_scalings_supported caps)
            then strlcpy (MAX_PRINT_SCALING_LENGTH H) [] ''auto'' (MAX_PRINT_SCALING_LENGTH H)
            else if print_scaling_default caps \<noteq> []
            then strlcpy (MAX_PRINT_SCALING_LENGTH H) [] (print_scaling_default caps)
                   (sizeof_print_scaling_default H)
            else strlcpy (MAX_PRINT_SCALING_LENGTH H) [] ''fit'' (MAX_PRINT_SCALING_LENGTH H)))
      else
        (if ''none'' \<in> set (print_scalings_supported caps)
         then strlcpy (MAX_PRINT_SCALING_LENGTH H) [] ''none'' (MAX_PRINT_SCALING_LENGTH H)
         else Inr []))"

definition set_print_scaling :: "lib_wprint \<Rightarrow> externals \<Rightarrow> LocalJobParams
                                  \<Rightarrow> wprint_job_params_t \<Rightarrow> printer_capabilities_t
                                  \<Rightarrow> copy_error + wprint_job_params_t" where
  "set_print_scaling H X jobParams params caps =
     (case choose_print_scaling H X jobParams params caps of
        Inl e \<Rightarrow> Inl e
      | Inr scaling \<Rightarrow>
          (case strlcpy (sizeof_params_print_scaling H) (print_scaling params) scaling
                  (sizeof_params_print_scaling H) of
             Inl e \<Rightarrow> Inl e
           | Inr s \<Rightarrow> Inr (params\<lparr>print_scaling := s\<rparr>)))"

subsection \<open>Lines 1950 to 1988: Page-Order Composer across documents\<close>

text \<open>Lines 1964 to 1977: what one round of the loop sends for the document at \<open>index\<close>.\<close>

definition send_document :: "lib_wprint \<Rightarrow> externals \<Rightarrow> int \<Rightarrow> printer_capabilities_t
                              \<Rightarrow> string option \<Rightarrow> string option \<Rightarrow> pages_state \<Rightarrow> int
                              \<Rightarrow> lib_call list \<Rightarrow> mem_error + (status \<times> lib_call list)" where
  "send_document H X job_handle caps mimeTypeStr page doc pageIndex log =
     (case page of
        None \<Rightarrow> Inr (ERROR, log)
      | Some pageStr \<Rightarrow>
          if is_pdf_doc H mimeTypeStr (Some pageStr)
          then print_pdf_pages X job_handle caps pageStr (num_index doc) (pages_ary doc) log
          else Inr (wprintPage_result X log
                      (wprintPage job_handle pageIndex (Some pageStr) False False),
                    log @ [wprintPage job_handle pageIndex (Some pageStr) False False]))"

function send_documents :: "lib_wprint \<Rightarrow> externals \<Rightarrow> int \<Rightarrow> printer_capabilities_t
                             \<Rightarrow> string option \<Rightarrow> string option list \<Rightarrow> pages_state list
                             \<Rightarrow> int \<Rightarrow> int \<Rightarrow> int \<Rightarrow> status \<Rightarrow> lib_call list
                             \<Rightarrow> mem_error + (int \<times> status \<times> lib_call list)" where
  "send_documents H X job_handle caps mimeTypeStr fileArray docs incrementor pageIndex index
       result log =
     (if result = OK \<and> pageIndex \<le> int (length fileArray) then
        (if 0 \<le> index \<and> index < int (length fileArray) \<and> index < int (length docs) then
           (case send_document H X job_handle caps mimeTypeStr (fileArray ! nat index)
                   (docs ! nat index) pageIndex log of
              Inl e \<Rightarrow> Inl e
            | Inr (r, log') \<Rightarrow>
                send_documents H X job_handle caps mimeTypeStr fileArray docs incrementor
                  (pageIndex + 1) (index + incrementor) r log')
         else Inl (PagesArrayOverflow index))
      else Inr (pageIndex, result, log))"
  by pat_completeness auto
termination
  by (relation "measure (\<lambda>(H, X, job_handle, caps, mimeTypeStr, fileArray, docs, incrementor,
        pageIndex, index, result, log). nat (int (length fileArray) + 1 - pageIndex))") auto

declare send_documents.simps [simp del]

record job_outcome =
  returned_handle :: "int option"
  started_with :: "wprint_job_params_t option"
  calls :: "lib_call list"

definition submit_job :: "lib_wprint \<Rightarrow> externals \<Rightarrow> int \<Rightarrow> printer_capabilities_t
                           \<Rightarrow> string option \<Rightarrow> string option list \<Rightarrow> pages_state list
                           \<Rightarrow> mem_error + (int option \<times> lib_call list)" where
  "submit_job H X handle caps mimeTypeStr fileArray docs =
     (case send_documents H X handle caps mimeTypeStr fileArray docs
             (if faceDownTray caps then 1 else - 1) 1
             (if faceDownTray caps then 0 else int (length fileArray) - 1) OK [] of
        Inl e \<Rightarrow> Inl e
      | Inr (pageIndex, result, log) \<Rightarrow>
          if result \<noteq> OK
          then Inr (None, log @ [wprintPage handle pageIndex None True False,
                                 wprintCancelJob handle, wprintEndJob handle])
          else Inr (Some handle, log @ [wprintPage handle pageIndex None True False]))"

datatype job_error = Memory mem_error | Scaling copy_error

definition nativeStartJob :: "lib_wprint \<Rightarrow> externals \<Rightarrow> (nat \<Rightarrow> nat \<Rightarrow> int) \<Rightarrow> string option
                               \<Rightarrow> LocalJobParams \<Rightarrow> wprint_job_params_t \<Rightarrow> printer_capabilities_t
                               \<Rightarrow> string option list \<Rightarrow> job_error + job_outcome" where
  "nativeStartJob H X stack mimeTypeStr jobParams params caps fileArray =
     (if length fileArray > 0 then
        (case resolve_documents H X mimeTypeStr jobParams OK
                (zip fileArray (initial_rows stack (length fileArray))) of
           Inl e \<Rightarrow> Inl (Memory e)
         | Inr docs \<Rightarrow>
             (case set_print_scaling H X jobParams
                     (smart_duplex H mimeTypeStr fileArray docs params) caps of
                Inl e \<Rightarrow> Inl (Scaling e)
              | Inr params' \<Rightarrow>
                  (case wprintStartJob X params' of
                     None \<Rightarrow> Inr \<lparr>returned_handle = None, started_with = Some params', calls = []\<rparr>
                   | Some handle \<Rightarrow>
                       (case submit_job H X handle caps mimeTypeStr fileArray docs of
                          Inl e \<Rightarrow> Inl (Memory e)
                        | Inr (h, log) \<Rightarrow>
                            Inr \<lparr>returned_handle = h, started_with = Some params', calls = log\<rparr>))))
      else Inr \<lparr>returned_handle = None, started_with = None, calls = []\<rparr>)"

section \<open>The Page-Order Composer on lists\<close>

text \<open>
  Transmitting a list of pages of one document in the order given, stopping at the
  first result that is not a success; \<open>result\<close> is what comes back when the list is
  empty.
\<close>

fun transmit_list :: "externals \<Rightarrow> int \<Rightarrow> string \<Rightarrow> status \<Rightarrow> lib_call list \<Rightarrow> int list
                       \<Rightarrow> status \<times> lib_call list" where
  "transmit_list X job_handle pathname result log [] = (result, log)"
| "transmit_list X job_handle pathname result log (p # ps) =
     (if wprintPage_result X log (wprintPage job_handle p (Some pathname) False True) \<noteq> OK
      then (wprintPage_result X log (wprintPage job_handle p (Some pathname) False True),
            log @ [wprintPage job_handle p (Some pathname) False True])
      else transmit_list X job_handle pathname OK
             (log @ [wprintPage job_handle p (Some pathname) False True]) ps)"

text \<open>
  Transmitting one document at position \<open>pageIndex\<close> of the job: nothing but an error
  for a file without a name, the resolved page list of a PDF in the order of the tray
  (as given when face down, reversed when face up), and one call for any other file.
\<close>

definition transmit_document :: "lib_wprint \<Rightarrow> externals \<Rightarrow> int \<Rightarrow> printer_capabilities_t
                                  \<Rightarrow> string option \<Rightarrow> string option \<Rightarrow> pages_state \<Rightarrow> int
                                  \<Rightarrow> lib_call list \<Rightarrow> status \<times> lib_call list" where
  "transmit_document H X job_handle caps mimeTypeStr page doc pageIndex log =
     (case page of
        None \<Rightarrow> (ERROR, log)
      | Some pageStr \<Rightarrow>
          if is_pdf_doc H mimeTypeStr (Some pageStr)
          then transmit_list X job_handle pageStr ERROR log
                 (if faceDownTray caps then resolved doc else rev (resolved doc))
          else (wprintPage_result X log
                  (wprintPage job_handle pageIndex (Some pageStr) False False),
                log @ [wprintPage job_handle pageIndex (Some pageStr) False False]))"

text \<open>
  Submitting the documents whose indices are listed, in the order listed, the first at
  position \<open>pageIndex\<close>, until a result is not a success. The outcome is the position
  after the last document submitted, the last result and the calls made.
\<close>

fun documents_in_order :: "lib_wprint \<Rightarrow> externals \<Rightarrow> int \<Rightarrow> printer_capabilities_t
                            \<Rightarrow> string option \<Rightarrow> string option list \<Rightarrow> pages_state list
                            \<Rightarrow> int \<Rightarrow> status \<Rightarrow> lib_call list \<Rightarrow> nat list
                            \<Rightarrow> int \<times> status \<times> lib_call list" where
  "documents_in_order H X job_handle caps mimeTypeStr fileArray docs pageIndex result log [] =
     (pageIndex, result, log)"
| "documents_in_order H X job_handle caps mimeTypeStr fileArray docs pageIndex result log
       (i # order) =
     (if result \<noteq> OK then (pageIndex, result, log)
      else
        documents_in_order H X job_handle caps mimeTypeStr fileArray docs (pageIndex + 1)
          (fst (transmit_document H X job_handle caps mimeTypeStr (fileArray ! i) (docs ! i)
                  pageIndex log))
          (snd (transmit_document H X job_handle caps mimeTypeStr (fileArray ! i) (docs ! i)
                  pageIndex log))
          order)"

text \<open>
  A job whose documents are submitted in the order listed and closed after the last
  of them: one end marker at the position reached, then the cancel and the end of the
  job when a result was not a success.
\<close>

definition job_in_order :: "lib_wprint \<Rightarrow> externals \<Rightarrow> int \<Rightarrow> printer_capabilities_t
                             \<Rightarrow> string option \<Rightarrow> string option list \<Rightarrow> pages_state list
                             \<Rightarrow> nat list \<Rightarrow> int option \<times> lib_call list" where
  "job_in_order H X job_handle caps mimeTypeStr fileArray docs order =
     (case documents_in_order H X job_handle caps mimeTypeStr fileArray docs 1 OK [] order of
        (pageIndex, result, log) \<Rightarrow>
          (if result = OK then Some job_handle else None,
           log @ wprintPage job_handle pageIndex None True False
             # (if result = OK then [] else [wprintCancelJob job_handle, wprintEndJob job_handle])))"


section \<open>Reason Bitmask Decoder: \<open>processFailReasons\<close>, \<open>processBlockStatus\<close>\<close>

text \<open>
  Each decoder is a loop over the bit indices below its bound around one chain of
  \<open>else if\<close>: a chain is the list of its tests, each a mask macro of lib_wprint.h
  with the static field of \<open>PrintServiceStrings\<close> whose value it selects. Macros and
  fields are written by their names; \<open>reason_mask\<close> gives a macro its value.
\<close>

definition fail_reason_chain :: "(string \<times> string) list" where
  "fail_reason_chain = [
      (''JOB_FAIL_REASON_UNABLE_TO_CONNECT'', ''BLOCKED_REASON__OFFLINE''),
      (''JOB_FAIL_REASON_ABORTED_BY_SYSTEM'', ''JOB_FAIL_REASON__ABORTED_BY_SYSTEM''),
      (''JOB_FAIL_REASON_UNSUPPORTED_COMPRESSION'', ''JOB_FAIL_REASON__UNSUPPORTED_COMPRESSION''),
      (''JOB_FAIL_REASON_COMPRESSION_ERROR'', ''JOB_FAIL_REASON__COMPRESSION_ERROR''),
      (''JOB_FAIL_REASON_UNSUPPORTED_DOCUMENT_FORMAT'', ''JOB_FAIL_REASON__UNSUPPORTED_DOCUMENT_FORMAT''),
      (''JOB_FAIL_REASON_DOCUMENT_FORMAT_ERROR'', ''JOB_FAIL_REASON__DOCUMENT_FORMAT_ERROR''),
      (''JOB_FAIL_REASON_SERVICE_OFFLINE'', ''JOB_FAIL_REASON__SERVICE_OFFLINE''),
      (''JOB_FAIL_REASON_DOCUMENT_PASSWORD_ERROR'', ''JOB_FAIL_REASON__DOCUMENT_PASSWORD_ERROR''),
      (''JOB_FAIL_REASON_DOCUMENT_PERMISSION_ERROR'', ''JOB_FAIL_REASON__DOCUMENT_PERMISSION_ERROR''),
      (''JOB_FAIL_REASON_DOCUMENT_SECURITY_ERROR'', ''JOB_FAIL_REASON__DOCUMENT_SECURITY_ERROR''),
      (''JOB_FAIL_REASON_DOCUMENT_UNPRINTABLE_ERROR'', ''JOB_FAIL_REASON__DOCUMENT_UNPRINTABLE_ERROR''),
      (''JOB_FAIL_REASON_DOCUMENT_ACCESS_ERROR'', ''JOB_FAIL_REASON__DOCUMENT_ACCESS_ERROR''),
      (''JOB_FAIL_REASON_SUBMISSION_INTERRUPTED'', ''JOB_FAIL_REASON__SUBMISSION_INTERRUPTED''),
      (''JOB_FAIL_REASON_AUTHORIZATION_FAILED'', ''JOB_DONE_AUTHORIZATION_FAILED''),
      (''JOB_FAIL_REASON_ACCOUNT_CLOSED'', ''JOB_DONE_ACCOUNT_CLOSED''),
      (''JOB_FAIL_REASON_ACCOUNT_INFO_NEEDED'', ''JOB_DONE_ACCOUNT_INFO_NEEDED''),
      (''JOB_FAIL_REASON_ACCOUNT_LIMIT_REACHED'', ''JOB_DONE_ACCOUNT_LIMIT_REACHED'')]"

definition block_status_chain :: "(string \<times> string) list" where
  "block_status_chain = [
      (''BLOCKED_REASON_UNABLE_TO_CONNECT'', ''BLOCKED_REASON__OFFLINE''),
      (''BLOCKED_REASON_BUSY'', ''BLOCKED_REASON__BUSY''),
      (''BLOCKED_REASONS_CANCELLED'', ''BLOCKED_REASON__CANCELLED''),
      (''BLOCKED_REASON_OUT_OF_PAPER'', ''BLOCKED_REASON__OUT_OF_PAPER''),
      (''BLOCKED_REASON_OUT_OF_INK'', ''BLOCKED_REASON__OUT_OF_INK''),
      (''BLOCKED_REASON_OUT_OF_TONER'', ''BLOCKED_REASON__OUT_OF_TONER''),
      (''BLOCKED_REASON_JAMMED'', ''BLOCKED_REASON__JAMMED''),
      (''BLOCKED_REASON_DOOR_OPEN'', ''BLOCKED_REASON__DOOR_OPEN''),
      (''BLOCKED_REASON_SVC_REQUEST'', ''BLOCKED_REASON__SERVICE_REQUEST''),
      (''BLOCKED_REASON_PAUSED'', ''BLOCKED_REASON__PAUSED''),
      (''BLOCKED_REASON_STOPPED'', ''BLOCKED_REASON__STOPPED''),
      (''BLOCKED_REASON_LOW_ON_INK'', ''BLOCKED_REASON__LOW_ON_INK''),
      (''BLOCKED_REASON_LOW_ON_TONER'', ''BLOCKED_REASON__LOW_ON_TONER''),
      (''BLOCKED_REASON_INPUT_CANNOT_FEED_SIZE_SELECTED'', ''BLOCKED_REASON__INPUT_CANNOT_FEED_SIZE_SELECTED''),
      (''BLOCKED_REASON_INTERLOCK_ERROR'', ''BLOCKED_REASON__INTERLOCK_ERROR''),
      (''BLOCKED_REASON_OUTPUT_TRAY_MISSING'', ''BLOCKED_REASON__OUTPUT_TRAY_MISSING''),
      (''BLOCKED_REASON_BANDER_ERROR'', ''BLOCKED_REASON__BANDER_ERROR''),
      (''BLOCKED_REASON_BINDER_ERROR'', ''BLOCKED_REASON__BINDER_ERROR''),
      (''BLOCKED_REASON_POWER_ERROR'', ''BLOCKED_REASON__POWER_ERROR''),
      (''BLOCKED_REASON_CLEANER_ERROR'', ''BLOCKED_REASON__CLEANER_ERROR''),
      (''BLOCKED_REASON_INPUT_TRAY_ERROR'', ''BLOCKED_REASON__INPUT_TRAY_ERROR''),
      (''BLOCKED_REASON_INSERTER_ERROR'', ''BLOCKED_REASON__INSERTER_ERROR''),
      (''BLOCKED_REASON_INTERPRETER_ERROR'', ''BLOCKED_REASON__INTERPRETER_ERROR''),
      (''BLOCKED_REASON_MAKE_ENVELOPE_ERROR'', ''BLOCKED_REASON__MAKE_ENVELOPE_ERROR''),
      (''BLOCKED_REASON_MARKER_ERROR'', ''BLOCKED_REASON__MARKER_ERROR''),
      (''BLOCKED_REASON_MEDIA_ERROR'', ''BLOCKED_REASON__MEDIA_ERROR''),
      (''BLOCKED_REASON_PERFORATER_ERROR'', ''BLOCKED_REASON__PERFORATER_ERROR''),
      (''BLOCKED_REASON_PUNCHER_ERROR'', ''BLOCKED_REASON__PUNCHER_ERROR''),
      (''BLOCKED_REASON_SEPARATION_CUTTER_ERROR'', ''BLOCKED_REASON__SEPARATION_CUTTER_ERROR''),
      (''BLOCKED_REASON_SHEET_ROTATOR_ERROR'', ''BLOCKED_REASON__SHEET_ROTATOR_ERROR''),
      (''BLOCKED_REASON_SLITTER_ERROR'', ''BLOCKED_REASON__SLITTER_ERROR''),
      (''BLOCKED_REASON_STACKER_ERROR'', ''BLOCKED_REASON__STACKER_ERROR''),
      (''BLOCKED_REASON_STAPLER_ERROR'', ''BLOCKED_REASON__STAPLER_ERROR''),
      (''BLOCKED_REASON_STITCHER_ERROR'', ''BLOCKED_REASON__STITCHER_ERROR''),
      (''BLOCKED_REASON_SUBUNIT_ERROR'', ''BLOCKED_REASON__SUBUNIT_ERROR''),
      (''BLOCKED_REASON_TRIMMER_ERROR'', ''BLOCKED_REASON__TRIMMER_ERROR''),
      (''BLOCKED_REASON_WRAPPER_ERROR'', ''BLOCKED_REASON__WRAPPER_ERROR''),
      (''BLOCKED_REASON_CLIENT_ERROR'', ''BLOCKED_REASON__CLIENT_ERROR''),
      (''BLOCKED_REASON_SERVER_ERROR'', ''BLOCKED_REASON__SERVER_ERROR''),
      (''BLOCKED_REASON_ALERT_REMOVAL_OF_BINARY_CHANGE_ENTRY'', ''BLOCKED_REASON__ALERT_REMOVAL_OF_BINARY_CHANGE_ENTRY''),
      (''BLOCKED_REASON_CONFIGURATION_CHANGED'', ''BLOCKED_REASON__CONFIGURATION_CHANGED''),
      (''BLOCKED_REASON_CONNECTING_TO_DEVICE'', ''BLOCKED_REASON__CONNECTING_TO_DEVICE''),
      (''BLOCKED_REASON_DEVELOPER_ERROR'', ''BLOCKED_REASON__DEVELOPER_ERROR''),
      (''BLOCKED_REASON_HOLD_NEW_JOBS'', ''BLOCKED_REASON__HOLD_NEW_JOBS''),
      (''BLOCKED_REASON_OPC_LIFE_OVER'', ''BLOCKED_REASON__OPC_LIFE_OVER''),
      (''BLOCKED_REASON_SPOOL_AREA_FULL'', ''BLOCKED_REASON__SPOOL_AREA_FULL''),
      (''BLOCKED_REASON_TIMED_OUT'', ''BLOCKED_REASON__TIMED_OUT''),
      (''BLOCKED_REASON_SHUTDOWN'', ''BLOCKED_REASON__SHUTDOWN''),
      (''BLOCKED_REASON_PRINTER_MANUAL_RESET'', ''BLOCKED_REASON__PRINTER_MANUAL_RESET''),
      (''BLOCKED_REASON_PRINTER_NMS_RESET'', ''BLOCKED_REASON__PRINTER_NMS_RESET'')]"

fun first_reason :: "lib_wprint \<Rightarrow> (string \<times> string) list \<Rightarrow> 64 word \<Rightarrow> string option" where
  "first_reason H [] reasons = None"
| "first_reason H ((macro, field) # rest) reasons =
     (if reasons AND reason_mask H macro \<noteq> 0 then Some field else first_reason H rest reasons)"

text \<open>One round per bit index: the bit is cleared after its round.\<close>

fun process_reasons :: "lib_wprint \<Rightarrow> (string \<times> string) list \<Rightarrow> nat list \<Rightarrow> 64 word
                         \<Rightarrow> string list" where
  "process_reasons H chain [] reasons = []"
| "process_reasons H chain (i # rest) reasons =
     (case (if reasons AND push_bit i 1 = 0 then None else first_reason H chain reasons) of
        None \<Rightarrow> process_reasons H chain rest (reasons AND NOT (push_bit i 1))
      | Some jStr \<Rightarrow> jStr # process_reasons H chain rest (reasons AND NOT (push_bit i 1)))"

text \<open>
  The Java array of \<open>count\<close> strings, each \<open>""\<close> at first, filled from index 0; the JVM
  refuses a store past its end.
\<close>

definition string_array :: "nat \<Rightarrow> string list \<Rightarrow> string list" where
  "string_array count found = take count found @ replicate (count - length found) []"

definition processFailReasons :: "lib_wprint \<Rightarrow> 64 word \<Rightarrow> nat \<Rightarrow> string list" where
  "processFailReasons H fail_reasons count =
     string_array count
       (process_reasons H fail_reason_chain [0..<IPP_JOB_STATE_REASON_MAX_VALUE H] fail_reasons)"

definition processBlockStatus :: "lib_wprint \<Rightarrow> 64 word \<Rightarrow> nat \<Rightarrow> string list" where
  "processBlockStatus H blocked_reasons count =
     string_array count
       (process_reasons H block_status_chain [0..<PRINT_STATUS_MAX_STATE H] blocked_reasons)"

section \<open>Job Callback Dispatcher: \<open>_wprint_callback_fn\<close>\<close>

record wprint_job_callback_params_t =
  state :: job_state
  job_done_result :: status
  blocked_reasons :: "64 word"
  certificate :: "8 word list option"

record JobCallbackParams =
  jobId :: int
  jobState :: string
  jobDoneResult :: "string option"
  blockedReasons :: "string list option"
  callback_certificate :: "8 word list option"

definition job_state_string :: "job_state \<Rightarrow> string" where
  "job_state_string s =
     (case s of
        JOB_QUEUED \<Rightarrow> ''JOB_STATE_QUEUED''
      | JOB_RUNNING \<Rightarrow> ''JOB_STATE_RUNNING''
      | JOB_BLOCKED \<Rightarrow> ''JOB_STATE_BLOCKED''
      | JOB_DONE \<Rightarrow> ''JOB_STATE_DONE''
      | JOB_STATE_OTHER \<Rightarrow> ''JOB_STATE_OTHER'')"

definition job_done_string :: "status \<Rightarrow> string" where
  "job_done_string r =
     (case r of
        OK \<Rightarrow> ''JOB_DONE_OK''
      | ERROR \<Rightarrow> ''JOB_DONE_ERROR''
      | CANCELLED \<Rightarrow> ''JOB_DONE_CANCELLED''
      | CORRUPT \<Rightarrow> ''JOB_DONE_CORRUPT''
      | BAD_CERTIFICATE \<Rightarrow> ''JOB_DONE_BAD_CERTIFICATE''
      | OTHER_STATUS \<Rightarrow> ''JOB_DONE_OTHER'')"

text \<open>Lines 1559 to 1598: the flag set in the cases ERROR and CORRUPT of a done job.\<close>

definition print_job_failed :: "wprint_job_callback_params_t \<Rightarrow> bool" where
  "print_job_failed cb_param =
     (case state cb_param of
        JOB_DONE \<Rightarrow>
          (case job_done_result cb_param of
             OK \<Rightarrow> False
           | ERROR \<Rightarrow> True
           | CANCELLED \<Rightarrow> False
           | CORRUPT \<Rightarrow> True
           | BAD_CERTIFICATE \<Rightarrow> False
           | OTHER_STATUS \<Rightarrow> False)
      | _ \<Rightarrow> False)"

definition max_value_reasons :: "lib_wprint \<Rightarrow> wprint_job_callback_params_t \<Rightarrow> nat" where
  "max_value_reasons H cb_param =
     (if print_job_failed cb_param then IPP_JOB_STATE_REASON_MAX_VALUE H
      else PRINT_STATUS_MAX_STATE H)"

text \<open>
  Lines 1609 to 1613 test \<open>blocked_reasons & (1 << i)\<close> with an \<open>int\<close> 1: defined by C for
  \<open>i < 31\<close> only; what it is beyond is a parameter.
\<close>

definition int_one_shl :: "lib_wprint \<Rightarrow> nat \<Rightarrow> 64 word" where
  "int_one_shl H i = (if i < 31 then push_bit i 1 else int_shift_undefined H i)"

definition count_reasons :: "lib_wprint \<Rightarrow> wprint_job_callback_params_t \<Rightarrow> nat" where
  "count_reasons H cb_param =
     length (filter (\<lambda>i. blocked_reasons cb_param AND int_one_shl H i \<noteq> 0)
               [0..<max_value_reasons H cb_param])"

definition reason_strings :: "lib_wprint \<Rightarrow> wprint_job_callback_params_t \<Rightarrow> string list option" where
  "reason_strings H cb_param =
     (if count_reasons H cb_param > 0 then
        (if print_job_failed cb_param
         then Some (processFailReasons H (blocked_reasons cb_param) (count_reasons H cb_param))
         else Some (processBlockStatus H (blocked_reasons cb_param) (count_reasons H cb_param)))
      else None)"

text \<open>The object handed to \<open>jobCallback\<close>; nothing is reported for a NULL \<open>param\<close>.\<close>

definition wprint_callback_fn :: "lib_wprint \<Rightarrow> int \<Rightarrow> wprint_job_callback_params_t option
                                   \<Rightarrow> JobCallbackParams option" where
  "wprint_callback_fn H job_handle param =
     (case param of
        None \<Rightarrow> None
      | Some cb_param \<Rightarrow>
          Some \<lparr>jobId = job_handle,
                jobState = job_state_string (state cb_param),
                jobDoneResult = (if state cb_param = JOB_DONE
                                 then Some (job_done_string (job_done_result cb_param)) else None),
                blockedReasons = reason_strings H cb_param,
                callback_certificate = certificate cb_param\<rparr>)"

section \<open>The scan of a segment\<close>

lemma scan_loop_append:
  "scan_loop s (xs @ ys) = (case scan_loop s xs of Inl e \<Rightarrow> Inl e | Inr s' \<Rightarrow> scan_loop s' ys)"
  by (induction xs arbitrary: s) (auto split: sum.splits)

lemma scan_char_lengths:
  "scan_char s c = Inr s' \<Longrightarrow>
     length (num_begin_ary s') = length (num_begin_ary s) \<and>
     length (num_end_ary s') = length (num_end_ary s)"
  by (auto simp: scan_char_def split: if_splits)

lemma scan_loop_lengths:
  "scan_loop s xs = Inr s' \<Longrightarrow>
     length (num_begin_ary s') = length (num_begin_ary s) \<and>
     length (num_end_ary s') = length (num_end_ary s)"
proof (induction xs arbitrary: s)
  case Nil
  then show ?case by simp
next
  case (Cons c cs)
  from Cons.prems obtain s1 where s1: "scan_char s c = Inr s1" and rest: "scan_loop s1 cs = Inr s'"
    by (auto split: sum.splits)
  show ?case using Cons.IH [OF rest] scan_char_lengths [OF s1] by simp
qed

text \<open>Characters stored after a dash go into the end buffer, one cell after the other.\<close>

lemma scan_loop_end_chars:
  assumes "dash_encountered s"
    and "\<forall>c\<in>set ys. \<not> isspace c \<and> c \<noteq> CHR ''-''"
    and "num_counter s + length ys \<le> length (num_end_ary s)"
  shows "scan_loop s ys =
           Inr (s\<lparr>num_end_ary := take (num_counter s) (num_end_ary s) @ ys
                      @ drop (num_counter s + length ys) (num_end_ary s),
                  num_counter := num_counter s + length ys\<rparr>)"
  using assms
proof (induction ys arbitrary: s)
  case Nil
  then show ?case by simp
next
  case (Cons c cs)
  let ?s1 = "s\<lparr>num_end_ary := (num_end_ary s)[num_counter s := c],
               num_counter := Suc (num_counter s)\<rparr>"
  from Cons.prems have step: "scan_char s c = Inr ?s1"
    by (simp add: scan_char_def)
  have lt: "num_counter s < length (num_end_ary s)"
    using Cons.prems(3) by simp
  have "scan_loop ?s1 cs =
          Inr (?s1\<lparr>num_end_ary := take (num_counter ?s1) (num_end_ary ?s1) @ cs
                      @ drop (num_counter ?s1 + length cs) (num_end_ary ?s1),
                   num_counter := num_counter ?s1 + length cs\<rparr>)"
    using Cons.prems by (intro Cons.IH) auto
  moreover have "take (Suc (num_counter s)) ((num_end_ary s)[num_counter s := c])
                   = take (num_counter s) (num_end_ary s) @ [c]"
    using lt by (simp add: take_Suc_conv_app_nth)
  ultimately show ?case
    using step by simp
qed

text \<open>Before a dash, the characters stored go into the begin buffer in the same way.\<close>

lemma scan_loop_begin_chars:
  assumes "\<not> dash_encountered s"
    and "\<forall>c\<in>set ys. \<not> isspace c \<and> c \<noteq> CHR ''-''"
    and "num_counter s + length ys \<le> length (num_begin_ary s)"
  shows "scan_loop s ys =
           Inr (s\<lparr>num_begin_ary := take (num_counter s) (num_begin_ary s) @ ys
                      @ drop (num_counter s + length ys) (num_begin_ary s),
                  num_counter := num_counter s + length ys\<rparr>)"
  using assms
proof (induction ys arbitrary: s)
  case Nil
  then show ?case by simp
next
  case (Cons c cs)
  let ?s1 = "s\<lparr>num_begin_ary := (num_begin_ary s)[num_counter s := c],
               num_counter := Suc (num_counter s)\<rparr>"
  from Cons.prems have step: "scan_char s c = Inr ?s1"
    by (simp add: scan_char_def)
  have lt: "num_counter s < length (num_begin_ary s)"
    using Cons.prems(3) by simp
  have "scan_loop ?s1 cs =
          Inr (?s1\<lparr>num_begin_ary := take (num_counter ?s1) (num_begin_ary ?s1) @ cs
                      @ drop (num_counter ?s1 + length cs) (num_begin_ary ?s1),
                   num_counter := num_counter ?s1 + length cs\<rparr>)"
    using Cons.prems by (intro Cons.IH) auto
  moreover have "take (Suc (num_counter s)) ((num_begin_ary s)[num_counter s := c])
                   = take (num_counter s) (num_begin_ary s) @ [c]"
    using lt by (simp add: take_Suc_conv_app_nth)
  ultimately show ?case
    using step by simp
qed

text \<open>A dash at any place: what follows it is written over the end buffer from cell 0.\<close>

lemma scan_loop_after_dash:
  assumes "scan_loop s0 xs = Inr s"
    and "length (num_end_ary s0) = 5"
    and "\<forall>c\<in>set ys. \<not> isspace c \<and> c \<noteq> CHR ''-''"
    and "length ys \<le> 5"
  shows "scan_loop s0 (xs @ CHR ''-'' # ys) =
           Inr (s\<lparr>num_end_ary := ys @ drop (length ys) (num_end_ary s),
                  num_counter := length ys, dash_encountered := True\<rparr>)"
proof -
  have len: "length (num_end_ary s) = 5"
    using scan_loop_lengths [OF assms(1)] assms(2) by simp
  let ?s1 = "s\<lparr>num_counter := 0, dash_encountered := True\<rparr>"
  have dash: "scan_char s (CHR ''-'') = Inr ?s1"
    by (simp add: scan_char_def isspace_def)
  have "scan_loop ?s1 ys =
          Inr (?s1\<lparr>num_end_ary := take (num_counter ?s1) (num_end_ary ?s1) @ ys
                      @ drop (num_counter ?s1 + length ys) (num_end_ary ?s1),
                   num_counter := num_counter ?s1 + length ys\<rparr>)"
    using assms(3,4) len by (intro scan_loop_end_chars) auto
  then have "scan_loop s (CHR ''-'' # ys) =
          Inr (s\<lparr>num_end_ary := ys @ drop (length ys) (num_end_ary s),
                 num_counter := length ys, dash_encountered := True\<rparr>)"
    using dash by simp
  then show ?thesis
    using assms(1) by (simp add: scan_loop_append)
qed

lemma c_str_padded:
  "NUL \<notin> set t \<Longrightarrow> 0 < n \<Longrightarrow> c_str (t @ replicate n NUL) = Inr t"
proof -
  assume t: "NUL \<notin> set t" and n: "0 < n"
  have "takeWhile (\<lambda>c. c \<noteq> NUL) (t @ replicate n NUL)
          = t @ takeWhile (\<lambda>c. c \<noteq> NUL) (replicate n NUL)"
    using t by (intro takeWhile_append2) auto
  then show ?thesis
    using n by (simp add: c_str_def takeWhile_replicate)
qed

lemma scan_begin_token:
  assumes "\<forall>c\<in>set b. \<not> isspace c \<and> c \<noteq> CHR ''-''" and "length b \<le> 5"
  shows "scan_loop init_scan b =
           Inr (init_scan\<lparr>num_begin_ary := b @ replicate (5 - length b) NUL,
                          num_counter := length b\<rparr>)"
  using scan_loop_begin_chars [of init_scan b] assms by (simp add: init_scan_def)

text \<open>
  Claim C8, amended. The first \<open>-\<close> of a segment switches the scan from the begin
  token to the end token: the characters before it are the begin token, those after it
  the end token, and the begin token is not written again. Every \<open>-\<close>, the first and each
  later one, is not stored itself and sets the write position to the first cell of
  the end buffer: the characters after a later \<open>-\<close> overwrite the end token from its
  start and leave its other cells as they were. For \<open>"1-2-3"\<close> the end token is \<open>"3"\<close>,
  for \<open>"1-23-4"\<close> it is \<open>"43"\<close>.
\<close>

theorem every_dash_restarts_end_token:
  assumes "\<forall>c\<in>set (b @ m @ e). \<not> isspace c \<and> c \<noteq> CHR ''-'' \<and> c \<noteq> NUL"
    and "length b \<le> 4" and "length m \<le> 4" and "length e \<le> 4"
    and "scan_loop init_scan xs = Inr s"
    and "\<forall>c\<in>set ys. \<not> isspace c \<and> c \<noteq> CHR ''-''" and "length ys \<le> 5"
  shows "scan_tokens (b @ CHR ''-'' # e) = Inr (b, e)
       \<and> scan_tokens (b @ CHR ''-'' # m @ CHR ''-'' # e) = Inr (b, e @ drop (length e) m)
       \<and> scan_loop init_scan (xs @ CHR ''-'' # ys) =
           Inr (s\<lparr>num_end_ary := ys @ drop (length ys) (num_end_ary s),
                  num_counter := length ys, dash_encountered := True\<rparr>)
       \<and> scan_tokens ''12-15'' = Inr (''12'', ''15'')
       \<and> scan_tokens ''1-2-3'' = Inr (''1'', ''3'')
       \<and> scan_tokens ''1-23-4'' = Inr (''1'', ''43'')"
proof -
  have clean: "\<forall>c\<in>set b. \<not> isspace c \<and> c \<noteq> CHR ''-''"
    "\<forall>c\<in>set m. \<not> isspace c \<and> c \<noteq> CHR ''-''" "\<forall>c\<in>set e. \<not> isspace c \<and> c \<noteq> CHR ''-''"
    and nul: "NUL \<notin> set b" "NUL \<notin> set m" "NUL \<notin> set e"
    using assms(1) by auto
  let ?sb = "init_scan\<lparr>num_begin_ary := b @ replicate (5 - length b) NUL,
                        num_counter := length b\<rparr>"
  have sb: "scan_loop init_scan b = Inr ?sb"
    using scan_begin_token [OF clean(1)] assms(2) by simp
  have e5: "length (num_end_ary init_scan) = 5"
    by (simp add: init_scan_def)
  have cb: "c_str (b @ replicate (5 - length b) NUL) = Inr b"
    using nul(1) assms(2) by (intro c_str_padded) auto
  \<comment> \<open>one dash\<close>
  let ?s1 = "?sb\<lparr>num_end_ary := e @ drop (length e) (num_end_ary ?sb),
                  num_counter := length e, dash_encountered := True\<rparr>"
  have s1: "scan_loop init_scan (b @ CHR ''-'' # e) = Inr ?s1"
    using scan_loop_after_dash [OF sb e5 clean(3)] assms(4) by simp
  have "e @ drop (length e) (num_end_ary ?sb) = e @ replicate (5 - length e) NUL"
    by (simp add: init_scan_def)
  moreover have "c_str (e @ replicate (5 - length e) NUL) = Inr e"
    using nul(3) assms(4) by (intro c_str_padded) auto
  ultimately have one: "scan_tokens (b @ CHR ''-'' # e) = Inr (b, e)"
    using s1 cb by (simp add: scan_tokens_def)
  \<comment> \<open>two dashes\<close>
  let ?sm = "?sb\<lparr>num_end_ary := m @ drop (length m) (num_end_ary ?sb),
                  num_counter := length m, dash_encountered := True\<rparr>"
  have sm: "scan_loop init_scan (b @ CHR ''-'' # m) = Inr ?sm"
    using scan_loop_after_dash [OF sb e5 clean(2)] assms(3) by simp
  let ?s2 = "?sm\<lparr>num_end_ary := e @ drop (length e) (num_end_ary ?sm),
                  num_counter := length e, dash_encountered := True\<rparr>"
  have "scan_loop init_scan ((b @ CHR ''-'' # m) @ CHR ''-'' # e) = Inr ?s2"
    using scan_loop_after_dash [OF sm e5 clean(3)] assms(4) by simp
  then have s2: "scan_loop init_scan (b @ CHR ''-'' # m @ CHR ''-'' # e) = Inr ?s2"
    by simp
  have "e @ drop (length e) (num_end_ary ?sm)
          = (e @ drop (length e) m) @ replicate (5 - max (length e) (length m)) NUL"
    by (simp add: init_scan_def max_def)
  moreover have "c_str ((e @ drop (length e) m) @ replicate (5 - max (length e) (length m)) NUL)
                   = Inr (e @ drop (length e) m)"
    using nul(2,3) assms(3,4) by (intro c_str_padded) (auto dest: in_set_dropD)
  ultimately have two: "scan_tokens (b @ CHR ''-'' # m @ CHR ''-'' # e)
                          = Inr (b, e @ drop (length e) m)"
    using s2 cb by (simp add: scan_tokens_def)
  have any: "scan_loop init_scan (xs @ CHR ''-'' # ys) =
           Inr (s\<lparr>num_end_ary := ys @ drop (length ys) (num_end_ary s),
                  num_counter := length ys, dash_encountered := True\<rparr>)"
    by (rule scan_loop_after_dash [OF assms(5) e5 assms(6,7)])
  have ex: "scan_tokens ''12-15'' = Inr (''12'', ''15'')"
    "scan_tokens ''1-2-3'' = Inr (''1'', ''3'')"
    "scan_tokens ''1-23-4'' = Inr (''1'', ''43'')"
    by code_simp+
  from one two any ex show ?thesis by blast
qed

text \<open>
  The theorem at the tokens \<open>"12"\<close>, \<open>"34"\<close> and \<open>"5"\<close>, and at the segment \<open>"1-2-3"\<close> split
  after \<open>"1-2"\<close>.
\<close>

theorem every_dash_restarts_end_token_witness:
  "scan_tokens ''12-5'' = Inr (''12'', ''5'')
   \<and> scan_tokens ''12-34-5'' = Inr (''12'', ''54'')
   \<and> scan_loop init_scan ''1-2-3'' =
       Inr \<lparr>num_begin_ary = [CHR ''1'', NUL, NUL, NUL, NUL],
            num_end_ary = [CHR ''3'', NUL, NUL, NUL, NUL],
            num_counter = 1, dash_encountered = True\<rparr>"
proof -
  have a: "\<forall>c\<in>set (''12'' @ ''34'' @ ''5''). \<not> isspace c \<and> c \<noteq> CHR ''-'' \<and> c \<noteq> NUL"
    by (simp add: isspace_def NUL_def)
  have b: "length ''12'' \<le> 4" "length ''34'' \<le> 4" "length ''5'' \<le> 4" by simp_all
  have c: "scan_loop init_scan ''1-2'' =
     Inr \<lparr>num_begin_ary = [CHR ''1'', NUL, NUL, NUL, NUL],
          num_end_ary = [CHR ''2'', NUL, NUL, NUL, NUL],
          num_counter = 1, dash_encountered = True\<rparr>"
    by code_simp
  have d: "\<forall>c\<in>set ''3''. \<not> isspace c \<and> c \<noteq> CHR ''-''" by (simp add: isspace_def)
  have e: "length ''3'' \<le> 5" by simp
  show ?thesis
    using every_dash_restarts_end_token [OF a b c d e] by simp
qed

text \<open>
  Claim C8 as stated fails: for the segment \<open>"1-2-3"\<close> the end token is \<open>"3"\<close>, not
  \<open>"23"\<close>, because line 279 resets \<open>num_counter\<close> at every dash.
\<close>

theorem end_token_of_1_2_3_is_not_23:
  "scan_tokens ''1-2-3'' = Inr (''1'', ''3'') \<and> scan_tokens ''1-2-3'' \<noteq> Inr (''1'', ''23'')"
  by code_simp

text \<open>
  Claim C9 says that no segment makes the scan write outside the two token buffers.
  Lines 284 and 286 store at \<open>num_counter\<close> without comparing it with the size 5 of
  the buffers: the sixth character of a token is written to cell 5, past the end.
  A token of five characters already fills its buffer and leaves no NUL for
  \<open>_isNumeric\<close> and \<open>atoi\<close> to stop at.
\<close>

theorem six_digit_token_overflows_buffer:
  "scan_loop init_scan ''123456'' = Inl (TokenBufferOverflow 5)
   \<and> scan_tokens ''12345'' = Inl TokenUnterminated"
  by code_simp

section \<open>The storing loops and the parser\<close>

lemma resolved_store:
  assumes "0 \<le> num_index st" and "num_index st < int (length (pages_ary st))"
  shows "resolved (st\<lparr>pages_ary := (pages_ary st)[nat (num_index st) := v],
                     num_index := num_index st + 1\<rparr>) = resolved st @ [v]"
proof -
  have "nat (num_index st + 1) = Suc (nat (num_index st))"
    using assms(1) by simp
  moreover have "nat (num_index st) < length (pages_ary st)"
    using assms by simp
  ultimately show ?thesis
    by (simp add: resolved_def take_Suc_conv_app_nth)
qed

lemma store_ascending_run:
  "count = num_index st \<Longrightarrow> 0 \<le> num_index st \<Longrightarrow>
   num_index st + (num_end - num_begin) < int (length (pages_ary st)) \<Longrightarrow>
   \<exists>st'. store_ascending num_end num_begin count st = Inr st'
       \<and> resolved st' = resolved st @ [num_begin..num_end]
       \<and> length (pages_ary st') = length (pages_ary st)"
proof (induction num_end num_begin count st rule: store_ascending.induct)
  case (1 num_end num_begin count st)
  show ?case
  proof (cases "num_begin \<le> num_end")
    case False
    then have "\<not> count \<le> num_index st + num_end - num_begin"
      using "1.prems" by auto
    then show ?thesis
      using False "1.prems" by (subst store_ascending.simps) auto
  next
    case True
    let ?st2 = "st\<lparr>pages_ary := (pages_ary st)[nat count := num_begin],
                   num_index := num_index st + 1\<rparr>"
    have go: "count \<le> num_index st + num_end - num_begin"
      and inb: "0 \<le> count \<and> count < int (length (pages_ary st))"
      using True "1.prems" by auto
    have "\<exists>st'. store_ascending num_end (num_begin + 1) (count + 1) ?st2 = Inr st'
       \<and> resolved st' = resolved ?st2 @ [num_begin + 1..num_end]
       \<and> length (pages_ary st') = length (pages_ary ?st2)"
      using "1.prems" by (intro "1.IH" [OF go inb]) auto
    then obtain st' where st': "store_ascending num_end (num_begin + 1) (count + 1) ?st2 = Inr st'"
      "resolved st' = resolved ?st2 @ [num_begin + 1..num_end]"
      "length (pages_ary st') = length (pages_ary ?st2)"
      by blast
    have "resolved ?st2 = resolved st @ [num_begin]"
      using resolved_store [of st num_begin] "1.prems" inb by simp
    moreover have "[num_begin..num_end] = num_begin # [num_begin + 1..num_end]"
      using True by (simp add: upto_rec1)
    moreover have "store_ascending num_end num_begin count st = Inr st'"
      using go inb st'(1) by (simp add: store_ascending.simps [of num_end num_begin count st])
    ultimately show ?thesis
      using st' by simp
  qed
qed

lemma store_descending_run:
  "count = num_index st \<Longrightarrow> 0 \<le> num_index st \<Longrightarrow>
   num_index st + (num_begin - num_end) < int (length (pages_ary st)) \<Longrightarrow>
   \<exists>st'. store_descending num_end num_begin count st = Inr st'
       \<and> resolved st' = resolved st @ rev [num_end..num_begin]
       \<and> length (pages_ary st') = length (pages_ary st)"
proof (induction num_end num_begin count st rule: store_descending.induct)
  case (1 num_end num_begin count st)
  show ?case
  proof (cases "num_end \<le> num_begin")
    case False
    then have "\<not> count \<le> num_index st + num_begin - num_end"
      using "1.prems" by auto
    then show ?thesis
      using False "1.prems" by (subst store_descending.simps) auto
  next
    case True
    let ?st2 = "st\<lparr>pages_ary := (pages_ary st)[nat count := num_begin],
                   num_index := num_index st + 1\<rparr>"
    have go: "count \<le> num_index st + num_begin - num_end"
      and inb: "0 \<le> count \<and> count < int (length (pages_ary st))"
      using True "1.prems" by auto
    have "\<exists>st'. store_descending num_end (num_begin - 1) (count + 1) ?st2 = Inr st'
       \<and> resolved st' = resolved ?st2 @ rev [num_end..num_begin - 1]
       \<and> length (pages_ary st') = length (pages_ary ?st2)"
      using "1.prems" by (intro "1.IH" [OF go inb]) auto
    then obtain st' where st': "store_descending num_end (num_begin - 1) (count + 1) ?st2 = Inr st'"
      "resolved st' = resolved ?st2 @ rev [num_end..num_begin - 1]"
      "length (pages_ary st') = length (pages_ary ?st2)"
      by blast
    have "resolved ?st2 = resolved st @ [num_begin]"
      using resolved_store [of st num_begin] "1.prems" inb by simp
    moreover have "rev [num_end..num_begin] = num_begin # rev [num_end..num_begin - 1]"
      using True by (simp add: upto_rec2)
    moreover have "store_descending num_end num_begin count st = Inr st'"
      using go inb st'(1) by (simp add: store_descending.simps [of num_end num_begin count st])
    ultimately show ?thesis
      using st' by simp
  qed
qed

text \<open>What a run that returns has done to the index.\<close>

lemma store_ascending_index:
  "store_ascending num_end num_begin count st = Inr st' \<Longrightarrow> count = num_index st \<Longrightarrow>
   num_index st' = num_index st + max 0 (num_end - num_begin + 1)
   \<and> length (pages_ary st') = length (pages_ary st)"
proof (induction num_end num_begin count st rule: store_ascending.induct)
  case (1 num_end num_begin count st)
  show ?case
  proof (cases "num_begin \<le> num_end")
    case False
    then have "\<not> count \<le> num_index st + num_end - num_begin"
      using "1.prems" by auto
    then show ?thesis
      using False "1.prems" by (subst (asm) store_ascending.simps) auto
  next
    case True
    let ?st2 = "st\<lparr>pages_ary := (pages_ary st)[nat count := num_begin],
                   num_index := num_index st + 1\<rparr>"
    have go: "count \<le> num_index st + num_end - num_begin"
      using True "1.prems" by auto
    have inb: "0 \<le> count \<and> count < int (length (pages_ary st))"
      using go "1.prems"(1)
      by (auto simp: store_ascending.simps [of num_end num_begin count st] split: if_splits)
    have rec: "store_ascending num_end (num_begin + 1) (count + 1) ?st2 = Inr st'"
      using go inb "1.prems"(1) by (simp add: store_ascending.simps [of num_end num_begin count st])
    have "num_index st' = num_index ?st2 + max 0 (num_end - (num_begin + 1) + 1)
       \<and> length (pages_ary st') = length (pages_ary ?st2)"
      using "1.prems" by (intro "1.IH" [OF go inb rec]) auto
    then show ?thesis
      using True by simp
  qed
qed

lemma store_descending_index:
  "store_descending num_end num_begin count st = Inr st' \<Longrightarrow> count = num_index st \<Longrightarrow>
   num_index st' = num_index st + max 0 (num_begin - num_end + 1)
   \<and> length (pages_ary st') = length (pages_ary st)"
proof (induction num_end num_begin count st rule: store_descending.induct)
  case (1 num_end num_begin count st)
  show ?case
  proof (cases "num_end \<le> num_begin")
    case False
    then have "\<not> count \<le> num_index st + num_begin - num_end"
      using "1.prems" by auto
    then show ?thesis
      using False "1.prems" by (subst (asm) store_descending.simps) auto
  next
    case True
    let ?st2 = "st\<lparr>pages_ary := (pages_ary st)[nat count := num_begin],
                   num_index := num_index st + 1\<rparr>"
    have go: "count \<le> num_index st + num_begin - num_end"
      using True "1.prems" by auto
    have inb: "0 \<le> count \<and> count < int (length (pages_ary st))"
      using go "1.prems"(1)
      by (auto simp: store_descending.simps [of num_end num_begin count st] split: if_splits)
    have rec: "store_descending num_end (num_begin - 1) (count + 1) ?st2 = Inr st'"
      using go inb "1.prems"(1) by (simp add: store_descending.simps [of num_end num_begin count st])
    have "num_index st' = num_index ?st2 + max 0 (num_begin - 1 - num_end + 1)
       \<and> length (pages_ary st') = length (pages_ary ?st2)"
      using "1.prems" by (intro "1.IH" [OF go inb rec]) auto
    then show ?thesis
      using True by simp
  qed
qed

lemma length_page_run: "int (length (page_run b e)) = \<bar>e - b\<bar> + 1"
  by (simp add: page_run_def)

text \<open>A segment with bounds inside the document: the parser appends its run.\<close>

lemma order_pdf_pages_valid:
  assumes sb: "segment_bounds seg = Some (b, e)"
    and range: "1 \<le> b" "b \<le> N" "1 \<le> e" "e \<le> N"
    and idx: "0 \<le> num_index st"
    and room: "num_index st + int (length (page_run b e)) \<le> int (length (pages_ary st))"
  shows "\<exists>st'. order_pdf_pages N st seg = Inr (True, st')
            \<and> resolved st' = resolved st @ page_run b e
            \<and> length (pages_ary st') = length (pages_ary st)
            \<and> num_index st' = num_index st + int (length (page_run b e))"
proof -
  from sb obtain tb te where toks: "scan_tokens seg = Inr (tb, te)"
    and num: "isNumeric tb" "isNumeric te"
    and b: "b = atoi tb" and e: "e = (if atoi te = 0 then atoi tb else atoi te)"
    by (auto simp: segment_bounds_def split: sum.splits if_splits)
  show ?thesis
  proof (cases "b \<le> e")
    case True
    have "num_index st + (e - b) < int (length (pages_ary st))"
      using room True by (simp add: length_page_run)
    from store_ascending_run [OF refl idx this]
    obtain st' where st': "store_ascending e b (num_index st) st = Inr st'"
      "resolved st' = resolved st @ [b..e]" "length (pages_ary st') = length (pages_ary st)"
      by blast
    have "num_index st' = num_index st + int (length (page_run b e))"
      using store_ascending_index [OF st'(1) refl] True by (simp add: length_page_run)
    moreover have "order_pdf_pages N st seg = Inr (True, st')"
      using toks num b e range True st'(1) by (simp add: order_pdf_pages_def Let_def)
    ultimately show ?thesis
      using st' True by (simp add: page_run_def)
  next
    case False
    have "num_index st + (b - e) < int (length (pages_ary st))"
      using room False by (simp add: length_page_run)
    from store_descending_run [OF refl idx this]
    obtain st' where st': "store_descending e b (num_index st) st = Inr st'"
      "resolved st' = resolved st @ rev [e..b]" "length (pages_ary st') = length (pages_ary st)"
      by blast
    have "num_index st' = num_index st + int (length (page_run b e))"
      using store_descending_index [OF st'(1) refl] False by (simp add: length_page_run)
    moreover have "order_pdf_pages N st seg = Inr (True, st')"
      using toks num b e range False st'(1) by (simp add: order_pdf_pages_def Let_def)
    ultimately show ?thesis
      using st' False by (simp add: page_run_def)
  qed
qed

lemma order_pdf_pages_index:
  assumes "order_pdf_pages N st seg = Inr (ok, st')"
  shows "num_index st \<le> num_index st' \<and> num_index st' \<le> num_index st + max 0 N
         \<and> length (pages_ary st') = length (pages_ary st)"
proof -
  from assms obtain tb te where toks: "scan_tokens seg = Inr (tb, te)"
    by (auto simp: order_pdf_pages_def split: sum.splits)
  define b where "b = atoi tb"
  define e where "e = (if atoi te = 0 then atoi tb else atoi te)"
  show ?thesis
  proof (cases "isNumeric tb \<and> isNumeric te \<and> 0 < b \<and> 0 < e \<and> b \<le> N \<and> e \<le> N")
    case False
    then have "st' = st"
      using assms toks by (auto simp: order_pdf_pages_def Let_def b_def e_def split: if_splits)
    then show ?thesis by simp
  next
    case valid: True
    show ?thesis
    proof (cases "b \<le> e")
      case True
      then have "store_ascending e b (num_index st) st = Inr st'"
        using assms toks valid
        by (auto simp: order_pdf_pages_def Let_def b_def e_def split: if_splits sum.splits)
      from store_ascending_index [OF this refl] show ?thesis
        using valid True by simp
    next
      case False
      then have "store_descending e b (num_index st) st = Inr st'"
        using assms toks valid
        by (auto simp: order_pdf_pages_def Let_def b_def e_def split: if_splits sum.splits)
      from store_descending_index [OF this refl] show ?thesis
        using valid False by simp
    qed
  qed
qed

lemma range_loop_index:
  "range_loop N str st toks = Inr (str', st') \<Longrightarrow>
     num_index st \<le> num_index st'
     \<and> num_index st' \<le> num_index st + max 0 N * int (length toks)"
proof (induction toks arbitrary: st)
  case Nil
  then show ?case by simp
next
  case (Cons tok toks)
  from Cons.prems obtain ok st1 where first: "order_pdf_pages N st tok = Inr (ok, st1)"
    by (auto split: sum.splits)
  note i1 = order_pdf_pages_index [OF first]
  define K where "K = max 0 N * int (length toks)"
  have nonneg: "0 \<le> K"
    by (simp add: K_def)
  have total: "max 0 N * int (length (tok # toks)) = max 0 N + K"
    by (simp add: K_def algebra_simps)
  show ?case
  proof (cases ok)
    case True
    then have "range_loop N str st1 toks = Inr (str', st')"
      using Cons.prems first by simp
    from Cons.IH [OF this] have "num_index st1 \<le> num_index st'"
      "num_index st' \<le> num_index st1 + K" by (simp_all add: K_def)
    with i1 show ?thesis
      unfolding total by linarith
  next
    case False
    then obtain again where "order_pdf_pages N st1 (full_range N) = Inr (again, st')"
      using Cons.prems first by (auto split: sum.splits)
    from order_pdf_pages_index [OF this] have "num_index st1 \<le> num_index st'"
      "num_index st' \<le> num_index st1 + max 0 N" by simp_all
    moreover have "st1 = st"
      using first False by (auto simp: order_pdf_pages_def Let_def split: sum.splits if_splits)
    ultimately show ?thesis
      unfolding total using nonneg by auto
  qed
qed

text \<open>Segments that are all valid: the loop appends their runs, one after the other.\<close>

lemma range_loop_valid:
  assumes "list_all2 (\<lambda>seg (b, e). segment_bounds seg = Some (b, e)
              \<and> 1 \<le> b \<and> b \<le> N \<and> 1 \<le> e \<and> e \<le> N) segs bounds"
    and "0 \<le> num_index st"
    and "num_index st + int (length (concat (map (\<lambda>(b, e). page_run b e) bounds)))
           \<le> int (length (pages_ary st))"
  shows "\<exists>st'. range_loop N str st segs = Inr (str, st')
            \<and> resolved st' = resolved st @ concat (map (\<lambda>(b, e). page_run b e) bounds)"
  using assms
proof (induction segs bounds arbitrary: st rule: list_all2_induct)
  case Nil
  then show ?case by simp
next
  case (Cons seg segs be bounds)
  obtain b e where be: "be = (b, e)" by (cases be)
  have v: "segment_bounds seg = Some (b, e)" "1 \<le> b" "b \<le> N" "1 \<le> e" "e \<le> N"
    using Cons.hyps(1) be by auto
  have room1: "num_index st + int (length (page_run b e)) \<le> int (length (pages_ary st))"
    using Cons.prems(2) be by simp
  from order_pdf_pages_valid [OF v Cons.prems(1) room1]
  obtain st1 where st1: "order_pdf_pages N st seg = Inr (True, st1)"
    "resolved st1 = resolved st @ page_run b e"
    "length (pages_ary st1) = length (pages_ary st)"
    "num_index st1 = num_index st + int (length (page_run b e))"
    by blast
  have "\<exists>st'. range_loop N str st1 segs = Inr (str, st')
            \<and> resolved st' = resolved st1 @ concat (map (\<lambda>(b, e). page_run b e) bounds)"
    using st1 Cons.prems be by (intro Cons.IH) auto
  then show ?case
    using st1 be by auto
qed

text \<open>The parser returns true exactly for the segments that pass the test of its lines 297 to 311.\<close>

lemma order_pdf_pages_succeeds:
  assumes "order_pdf_pages N st seg = Inr (ok, st')"
  shows "ok = segment_succeeds N seg \<and> (\<not> ok \<longrightarrow> st' = st)"
proof -
  from assms obtain tb te where toks: "scan_tokens seg = Inr (tb, te)"
    by (auto simp: order_pdf_pages_def split: sum.splits)
  show ?thesis
    using assms toks
    by (auto simp: order_pdf_pages_def segment_succeeds_def segment_bounds_def Let_def
        split: sum.splits if_splits)
qed

text \<open>A run that returns has stayed inside the array.\<close>

lemma store_ascending_within:
  "store_ascending num_end num_begin count st = Inr st' \<Longrightarrow> count = num_index st \<Longrightarrow>
   num_index st \<le> int (length (pages_ary st)) \<Longrightarrow>
   num_index st' \<le> int (length (pages_ary st'))"
proof (induction num_end num_begin count st rule: store_ascending.induct)
  case (1 num_end num_begin count st)
  show ?case
  proof (cases "count \<le> num_index st + num_end - num_begin")
    case False
    then show ?thesis
      using "1.prems" by (subst (asm) store_ascending.simps) auto
  next
    case go: True
    have inb: "0 \<le> count \<and> count < int (length (pages_ary st))"
      using go "1.prems"(1) by (subst (asm) store_ascending.simps) (auto split: if_splits)
    let ?st2 = "st\<lparr>pages_ary := (pages_ary st)[nat count := num_begin],
                   num_index := num_index st + 1\<rparr>"
    have rec: "store_ascending num_end (num_begin + 1) (count + 1) ?st2 = Inr st'"
      using go inb "1.prems"(1) by (subst (asm) store_ascending.simps) simp
    show ?thesis
      using "1.prems" inb by (intro "1.IH" [OF go inb rec]) auto
  qed
qed

lemma store_descending_within:
  "store_descending num_end num_begin count st = Inr st' \<Longrightarrow> count = num_index st \<Longrightarrow>
   num_index st \<le> int (length (pages_ary st)) \<Longrightarrow>
   num_index st' \<le> int (length (pages_ary st'))"
proof (induction num_end num_begin count st rule: store_descending.induct)
  case (1 num_end num_begin count st)
  show ?case
  proof (cases "count \<le> num_index st + num_begin - num_end")
    case False
    then show ?thesis
      using "1.prems" by (subst (asm) store_descending.simps) auto
  next
    case go: True
    have inb: "0 \<le> count \<and> count < int (length (pages_ary st))"
      using go "1.prems"(1) by (subst (asm) store_descending.simps) (auto split: if_splits)
    let ?st2 = "st\<lparr>pages_ary := (pages_ary st)[nat count := num_begin],
                   num_index := num_index st + 1\<rparr>"
    have rec: "store_descending num_end (num_begin - 1) (count + 1) ?st2 = Inr st'"
      using go inb "1.prems"(1) by (subst (asm) store_descending.simps) simp
    show ?thesis
      using "1.prems" inb by (intro "1.IH" [OF go inb rec]) auto
  qed
qed

lemma order_pdf_pages_within:
  assumes "order_pdf_pages N st seg = Inr (ok, st')"
    and "num_index st \<le> int (length (pages_ary st))"
  shows "num_index st' \<le> int (length (pages_ary st'))"
proof -
  from assms(1) consider "st' = st"
    | ne nb where "store_ascending ne nb (num_index st) st = Inr st'"
    | ne nb where "store_descending ne nb (num_index st) st = Inr st'"
    by (auto simp: order_pdf_pages_def Let_def split: sum.splits if_splits)
  then show ?thesis
  proof cases
    case 1
    then show ?thesis using assms(2) by simp
  next
    case 2
    from store_ascending_within [OF this refl assms(2)] show ?thesis .
  next
    case 3
    from store_descending_within [OF this refl assms(2)] show ?thesis .
  qed
qed

lemma range_loop_within:
  "range_loop N str st toks = Inr (str', st') \<Longrightarrow>
   num_index st \<le> int (length (pages_ary st)) \<Longrightarrow>
   num_index st' \<le> int (length (pages_ary st'))"
proof (induction toks arbitrary: st)
  case Nil
  then show ?case by simp
next
  case (Cons tok toks)
  from Cons.prems(1) obtain ok st1 where first: "order_pdf_pages N st tok = Inr (ok, st1)"
    by (auto split: sum.splits)
  note w1 = order_pdf_pages_within [OF first Cons.prems(2)]
  show ?case
  proof (cases ok)
    case True
    then have "range_loop N str st1 toks = Inr (str', st')"
      using Cons.prems(1) first by simp
    from Cons.IH [OF this w1] show ?thesis .
  next
    case False
    then obtain again where "order_pdf_pages N st1 (full_range N) = Inr (again, st')"
      using Cons.prems(1) first by (auto split: sum.splits)
    from order_pdf_pages_within [OF this w1] show ?thesis .
  qed
qed

section \<open>The resolver\<close>

lemma memset_pages_row:
  "length row = MAX_NUM_PAGES \<Longrightarrow>
     \<exists>ary. memset_pages row = Inr ary \<and> length ary = MAX_NUM_PAGES"
  by (simp add: memset_pages_def MAX_NUM_PAGES_def)

lemma resolved_empty: "resolved \<lparr>pages_ary = ary, num_index = 0\<rparr> = []"
  by (simp add: resolved_def)

text \<open>What a resolution that returns has run: the loop over the tokens, from index 0.\<close>

lemma get_pdf_page_range_loop:
  assumes "get_pdf_page_range pageRangeObject \<lparr>pages_ary = row, num_index = 0\<rparr> N = Inr (str, st')"
  shows "\<exists>str0 ary. range_loop N str0 \<lparr>pages_ary = ary, num_index = 0\<rparr>
                       (strtok_all (range_to_split pageRangeObject N)) = Inr (str, st')"
  using assms by (auto simp: get_pdf_page_range_def split: sum.splits)

text \<open>The index a resolution leaves is the length of the resolved list.\<close>

lemma get_pdf_page_range_count:
  assumes "get_pdf_page_range pageRangeObject \<lparr>pages_ary = row, num_index = 0\<rparr> N = Inr (str, st')"
  shows "num_index st' = int (length (resolved st'))"
proof -
  from get_pdf_page_range_loop [OF assms] obtain str0 ary where
    loop: "range_loop N str0 \<lparr>pages_ary = ary, num_index = 0\<rparr>
             (strtok_all (range_to_split pageRangeObject N)) = Inr (str, st')"
    by blast
  from range_loop_index [OF loop] have "0 \<le> num_index st'" by simp
  moreover from range_loop_within [OF loop] have "num_index st' \<le> int (length (pages_ary st'))"
    by simp
  ultimately show ?thesis
    by (simp add: resolved_def)
qed

lemma resolve_pages_valid:
  assumes row: "length row = MAX_NUM_PAGES"
    and req: "requested_range pageRangeObject = Some r"
    and short: "length r < MAX_NUM_PAGES"
    and segs: "list_all2 (\<lambda>seg (b, e). segment_bounds seg = Some (b, e)
                 \<and> 1 \<le> b \<and> b \<le> N \<and> 1 \<le> e \<and> e \<le> N) (strtok_all r) bounds"
    and room: "length (concat (map (\<lambda>(b, e). page_run b e) bounds)) \<le> MAX_NUM_PAGES"
  shows "resolve_pages pageRangeObject row N =
           Inr (r, concat (map (\<lambda>(b, e). page_run b e) bounds))"
proof -
  from memset_pages_row [OF row] obtain ary where ary: "memset_pages row = Inr ary"
    "length ary = MAX_NUM_PAGES" by blast
  let ?st = "\<lparr>pages_ary = ary, num_index = 0\<rparr>"
  have "\<exists>st'. range_loop N r ?st (strtok_all r) = Inr (r, st')
            \<and> resolved st' = resolved ?st @ concat (map (\<lambda>(b, e). page_run b e) bounds)"
    using segs room ary(2) by (intro range_loop_valid) auto
  then obtain st' where st': "range_loop N r ?st (strtok_all r) = Inr (r, st')"
    "resolved st' = concat (map (\<lambda>(b, e). page_run b e) bounds)"
    by (auto simp: resolved_empty)
  show ?thesis
    using ary(1) req short st'
    by (simp add: resolve_pages_def resolve_document_def get_pdf_page_range_def
        range_to_split_def initial_range_str_def)
qed

text \<open>
  Claim C10, amended. When every segment of the expression that is parsed (the
  requested one, or \<open>"1-N"\<close> when none is requested) succeeds, the resolved page list
  has at most \<open>N\<close> times the number of segments many pages: every segment has its two
  bounds between 1 and the page count \<open>N\<close> and so contributes at most \<open>N\<close> pages, runs
  are concatenated and no duplicate is dropped, so the list can be longer than \<open>N\<close>.
  When the first segment fails, so that the fallback is taken with nothing stored
  before it, the list has at most \<open>N\<close> pages.
\<close>

theorem resolved_length_bounds:
  assumes "resolve_pages pageRangeObject row N = Inr (str, pages)"
  shows "(list_all (segment_succeeds N) (strtok_all (range_to_split pageRangeObject N))
            \<longrightarrow> length pages \<le> nat N * length (strtok_all (range_to_split pageRangeObject N)))
       \<and> (strtok_all (range_to_split pageRangeObject N) = seg # rest
            \<and> \<not> segment_succeeds N seg
            \<longrightarrow> length pages \<le> nat N)"
proof -
  let ?toks = "strtok_all (range_to_split pageRangeObject N)"
  from assms obtain st' where res:
      "get_pdf_page_range pageRangeObject \<lparr>pages_ary = row, num_index = 0\<rparr> N = Inr (str, st')"
    and pages: "pages = resolved st'"
    by (auto simp: resolve_pages_def resolve_document_def split: sum.splits)
  from get_pdf_page_range_loop [OF res] obtain str0 ary where
    loop: "range_loop N str0 \<lparr>pages_ary = ary, num_index = 0\<rparr> ?toks = Inr (str, st')"
    by blast
  have len: "length pages \<le> nat (num_index st')"
    using pages by (simp add: resolved_def)
  have all: "length pages \<le> nat N * length ?toks"
  proof -
    from range_loop_index [OF loop] have "num_index st' \<le> max 0 N * int (length ?toks)"
      by simp
    then have "nat (num_index st') \<le> nat (max 0 N * int (length ?toks))"
      by simp
    also have "\<dots> = nat N * length ?toks"
      by (cases "0 \<le> N") (simp_all add: nat_mult_distrib max_def)
    finally show ?thesis
      using len by simp
  qed
  have first: "length pages \<le> nat N" if toks: "?toks = seg # rest" and bad: "\<not> segment_succeeds N seg"
  proof -
    let ?st0 = "\<lparr>pages_ary = ary, num_index = 0\<rparr>"
    from loop toks obtain ok st1 where one: "order_pdf_pages N ?st0 seg = Inr (ok, st1)"
      by (auto split: sum.splits)
    from order_pdf_pages_succeeds [OF one] bad have "\<not> ok" and "st1 = ?st0"
      by simp_all
    with loop toks one obtain again where "order_pdf_pages N ?st0 (full_range N) = Inr (again, st')"
      by (auto split: sum.splits)
    from order_pdf_pages_index [OF this] have "num_index st' \<le> max 0 N"
      by simp
    then have "nat (num_index st') \<le> nat N"
      by (simp add: max_def split: if_splits)
    with len show ?thesis by simp
  qed
  from all first show ?thesis by blast
qed

text \<open>
  The two bounds for a document of 3 pages: \<open>"1-3,1-3"\<close>, two segments that succeed and 6
  pages, and \<open>"x,2"\<close>, whose first segment fails, 3 pages.
\<close>

theorem resolved_length_bounds_witness:
  "length [1, 2, 3, 1, 2, 3 :: int]
     \<le> nat 3 * length (strtok_all (range_to_split (Some ''1-3,1-3'') 3))
   \<and> length [1, 2, 3 :: int] \<le> nat 3"
proof -
  have a: "resolve_pages (Some ''1-3,1-3'') (replicate MAX_NUM_PAGES 0) 3
          = Inr (''1-3,1-3'', [1, 2, 3, 1, 2, 3])"
    by code_simp
  have good: "list_all (segment_succeeds 3) (strtok_all (range_to_split (Some ''1-3,1-3'') 3))"
    by code_simp
  have b: "resolve_pages (Some ''x,2'') (replicate MAX_NUM_PAGES 0) 3 = Inr (''1-3'', [1, 2, 3])"
    by code_simp
  have toks: "strtok_all (range_to_split (Some ''x,2'') 3) = ''x'' # [''2'']"
    by code_simp
  have bad: "\<not> segment_succeeds 3 ''x''"
    by code_simp
  from resolved_length_bounds [OF a, of "''x''" "[]"] good
    resolved_length_bounds [OF b, of "''x''" "[''2'']"] toks bad
  show ?thesis by blast
qed

text \<open>
  Claim C10 as stated fails: \<open>"1-3,1-3"\<close> on a document of 3 pages resolves to 6 pages,
  more than the page count, with both segments succeeding.
\<close>

theorem two_full_ranges_exceed_page_count:
  "\<exists>str pages. resolve_pages (Some ''1-3,1-3'') (replicate MAX_NUM_PAGES 0) 3 = Inr (str, pages)
      \<and> \<not> length pages \<le> nat 3"
proof -
  have "resolve_pages (Some ''1-3,1-3'') (replicate MAX_NUM_PAGES 0) 3
          = Inr (''1-3,1-3'', [1, 2, 3, 1, 2, 3])"
    by code_simp
  then show ?thesis by simp
qed

text \<open>
  Claim C1 says that a segment that fails makes the whole resolved list \<open>[1..N]\<close>. The
  fallback of lines 396 to 399 reports the range \<open>"1-N"\<close> but parses it with the index
  where the earlier segments left it: for \<open>"2,x"\<close> and 3 pages the list is
  \<open>[2, 1, 2, 3]\<close> while the reported range is \<open>"1-3"\<close>. With the failing segment in
  front, \<open>"x,2"\<close>, nothing was stored before and the list is \<open>[1, 2, 3]\<close>.
\<close>

theorem fallback_keeps_earlier_pages:
  "resolve_pages (Some ''2,x'') (replicate MAX_NUM_PAGES 0) 3 = Inr (''1-3'', [2, 1, 2, 3])
   \<and> resolve_pages (Some ''x,2'') (replicate MAX_NUM_PAGES 0) 3 = Inr (''1-3'', [1, 2, 3])"
  by code_simp

text \<open>
  Claim C2. A segment whose parsed bounds \<open>b\<close> and \<open>e\<close> lie between 1 and the page count
  makes the parser succeed and append \<open>b, b+1, \<dots>, e\<close> when \<open>e \<ge> b\<close> and
  \<open>b, b-1, \<dots>, e\<close> otherwise (\<open>page_run b e\<close>), provided the run fits into the
  caller's array. When every segment of a requested expression is such a segment, the
  expression fits into the buffer of \<open>MAX_NUM_PAGES\<close> bytes with its NUL and the runs
  fit into the \<open>MAX_NUM_PAGES\<close> cells of the row, the resolved list is the runs of the
  segments one after the other. So \<open>"2-5,1"\<close> with 5 pages resolves to
  \<open>[2, 3, 4, 5, 1]\<close> and \<open>"3-1"\<close> with at least 3 pages to \<open>[3, 2, 1]\<close>, whatever the
  row held before.
\<close>

theorem valid_segments_append_runs:
  assumes seg: "segment_bounds seg = Some (b, e)"
    and range: "1 \<le> b" "b \<le> N" "1 \<le> e" "e \<le> N"
    and idx: "0 \<le> num_index st"
    and room: "num_index st + int (length (page_run b e)) \<le> int (length (pages_ary st))"
    and row: "length row = MAX_NUM_PAGES"
    and req: "requested_range pageRangeObject = Some r"
    and short: "length r < MAX_NUM_PAGES"
    and segs: "list_all2 (\<lambda>seg (b, e). segment_bounds seg = Some (b, e)
                 \<and> 1 \<le> b \<and> b \<le> N \<and> 1 \<le> e \<and> e \<le> N) (strtok_all r) bounds"
    and fits: "length (concat (map (\<lambda>(b, e). page_run b e) bounds)) \<le> MAX_NUM_PAGES"
    and M: "3 \<le> M"
  shows "(\<exists>st'. order_pdf_pages N st seg = Inr (True, st')
              \<and> resolved st' = resolved st @ page_run b e)
       \<and> resolve_pages pageRangeObject row N =
           Inr (r, concat (map (\<lambda>(b, e). page_run b e) bounds))
       \<and> resolve_pages (Some ''2-5,1'') row 5 = Inr (''2-5,1'', [2, 3, 4, 5, 1])
       \<and> resolve_pages (Some ''3-1'') row M = Inr (''3-1'', [3, 2, 1])"
proof -
  have single: "\<exists>st'. order_pdf_pages N st seg = Inr (True, st')
              \<and> resolved st' = resolved st @ page_run b e"
    using order_pdf_pages_valid [OF seg range idx room] by blast
  have many: "resolve_pages pageRangeObject row N =
           Inr (r, concat (map (\<lambda>(b, e). page_run b e) bounds))"
    by (rule resolve_pages_valid [OF row req short segs fits])
  have r1: "requested_range (Some ''2-5,1'') = Some ''2-5,1''" by code_simp
  have t1: "strtok_all ''2-5,1'' = [''2-5'', ''1'']" by code_simp
  have b1: "segment_bounds ''2-5'' = Some (2, 5)" "segment_bounds ''1'' = Some (1, 1)"
    by code_simp+
  have p1: "page_run 2 5 = [2, 3, 4, 5]" "page_run 1 1 = [1]" by code_simp+
  have "resolve_pages (Some ''2-5,1'') row 5 =
     Inr (''2-5,1'', concat (map (\<lambda>(b, e). page_run b e) [(2, 5), (1, 1)]))"
    by (rule resolve_pages_valid [OF row r1]) (simp_all add: t1 b1 p1 MAX_NUM_PAGES_def)
  then have ex1: "resolve_pages (Some ''2-5,1'') row 5 = Inr (''2-5,1'', [2, 3, 4, 5, 1])"
    by (simp add: p1)
  have r2: "requested_range (Some ''3-1'') = Some ''3-1''" by code_simp
  have t2: "strtok_all ''3-1'' = [''3-1'']" by code_simp
  have b2: "segment_bounds ''3-1'' = Some (3, 1)" by code_simp
  have p2: "page_run 3 1 = [3, 2, 1]" by code_simp
  have "resolve_pages (Some ''3-1'') row M =
     Inr (''3-1'', concat (map (\<lambda>(b, e). page_run b e) [(3, 1)]))"
    using M by (intro resolve_pages_valid [OF row r2]) (simp_all add: t2 b2 p2 MAX_NUM_PAGES_def)
  then have ex2: "resolve_pages (Some ''3-1'') row M = Inr (''3-1'', [3, 2, 1])"
    by (simp add: p2)
  from single many ex1 ex2 show ?thesis by blast
qed

text \<open>
  The theorem at the segment \<open>"6-4"\<close> and the expression \<open>"2-3, 7 ,5-4"\<close> of a document
  of 7 pages.
\<close>

theorem valid_segments_append_runs_witness:
  "(\<exists>st'. order_pdf_pages 7 \<lparr>pages_ary = replicate MAX_NUM_PAGES 0, num_index = 0\<rparr> ''6-4''
             = Inr (True, st') \<and> resolved st' = [6, 5, 4])
   \<and> resolve_pages (Some ''2-3, 7 ,5-4'') (replicate MAX_NUM_PAGES 0) 7
       = Inr (''2-3, 7 ,5-4'', [2, 3, 7, 5, 4])
   \<and> resolve_pages (Some ''2-5,1'') (replicate MAX_NUM_PAGES 0) 5 = Inr (''2-5,1'', [2, 3, 4, 5, 1])
   \<and> resolve_pages (Some ''3-1'') (replicate MAX_NUM_PAGES 0) 3 = Inr (''3-1'', [3, 2, 1])"
proof -
  let ?st = "\<lparr>pages_ary = replicate MAX_NUM_PAGES 0, num_index = 0\<rparr>"
  have seg: "segment_bounds ''6-4'' = Some (6, 4)" by code_simp
  have p: "page_run 6 4 = [6, 5, 4]" by code_simp
  have idx: "0 \<le> num_index ?st" by simp
  have room: "num_index ?st + int (length (page_run 6 4)) \<le> int (length (pages_ary ?st))"
    by (simp add: p MAX_NUM_PAGES_def)
  have row: "length (replicate MAX_NUM_PAGES (0::int)) = MAX_NUM_PAGES" by simp
  have req: "requested_range (Some ''2-3, 7 ,5-4'') = Some ''2-3, 7 ,5-4''" by code_simp
  have short: "length ''2-3, 7 ,5-4'' < MAX_NUM_PAGES" by (simp add: MAX_NUM_PAGES_def)
  have t: "strtok_all ''2-3, 7 ,5-4'' = [''2-3'', '' 7 '', ''5-4'']" by code_simp
  have b: "segment_bounds ''2-3'' = Some (2, 3)" "segment_bounds '' 7 '' = Some (7, 7)"
    "segment_bounds ''5-4'' = Some (5, 4)" by code_simp+
  have ps: "page_run 2 3 = [2, 3]" "page_run 7 7 = [7]" "page_run 5 4 = [5, 4]" by code_simp+
  have segs: "list_all2 (\<lambda>seg (b, e). segment_bounds seg = Some (b, e)
                 \<and> 1 \<le> b \<and> b \<le> 7 \<and> 1 \<le> e \<and> e \<le> 7) (strtok_all ''2-3, 7 ,5-4'')
                 [(2, 3), (7, 7), (5, 4)]"
    by (simp add: t b)
  have fits: "length (concat (map (\<lambda>(b, e). page_run b e) [(2, 3), (7, 7), (5, 4 :: int)]))
                \<le> MAX_NUM_PAGES"
    by (simp add: ps MAX_NUM_PAGES_def)
  have M: "(3::int) \<le> 3" by simp
  show ?thesis
    using valid_segments_append_runs [OF seg _ _ _ _ idx room row req short segs fits M]
    by (simp add: p ps resolved_empty)
qed

section \<open>The order of transmission\<close>

lemma print_face_down_list:
  "0 \<le> page_index \<Longrightarrow> num_pages \<le> int (length pages) \<Longrightarrow>
   print_face_down X h pathname num_pages pages page_index result log =
     Inr (transmit_list X h pathname result log (drop (nat page_index) (take (nat num_pages) pages)))"
proof (induction X h pathname num_pages pages page_index result log rule: print_face_down.induct)
  case (1 X h pathname num_pages pages page_index result log)
  show ?case
  proof (cases "page_index < num_pages")
    case False
    then show ?thesis
      by (subst print_face_down.simps) simp
  next
    case True
    have inb: "0 \<le> page_index \<and> page_index < int (length pages)"
      using True "1.prems" by simp
    have split: "drop (nat page_index) (take (nat num_pages) pages)
                   = pages ! nat page_index # drop (nat (page_index + 1)) (take (nat num_pages) pages)"
    proof -
      have "nat page_index < length (take (nat num_pages) pages)"
        using True inb by (auto simp: nat_less_iff)
      from Cons_nth_drop_Suc [OF this] show ?thesis
        using True inb by (simp add: nat_add_distrib)
    qed
    let ?c = "wprintPage h (pages ! nat page_index) (Some pathname) False True"
    show ?thesis
    proof (cases "wprintPage_result X log ?c = OK")
      case ok: True
      have "print_face_down X h pathname num_pages pages (page_index + 1) OK (log @ [?c]) =
              Inr (transmit_list X h pathname OK (log @ [?c])
                     (drop (nat (page_index + 1)) (take (nat num_pages) pages)))"
        using "1.prems" ok by (intro "1.IH" [OF True inb]) auto
      then show ?thesis
        using True inb ok split by (subst print_face_down.simps) simp
    next
      case False
      then show ?thesis
        using True inb split by (subst print_face_down.simps) simp
    qed
  qed
qed

lemma print_face_up_list:
  "- 1 \<le> page_index \<Longrightarrow> page_index < int (length pages) \<Longrightarrow>
   print_face_up X h pathname pages page_index result log =
     Inr (transmit_list X h pathname result log (rev (take (nat (page_index + 1)) pages)))"
proof (induction X h pathname pages page_index result log rule: print_face_up.induct)
  case (1 X h pathname pages page_index result log)
  show ?case
  proof (cases "page_index \<ge> 0")
    case False
    then have "page_index = - 1"
      using "1.prems" by simp
    then show ?thesis
      by (subst print_face_up.simps) simp
  next
    case True
    have inb: "page_index < int (length pages)"
      using "1.prems" by simp
    have split: "rev (take (nat (page_index + 1)) pages)
                   = pages ! nat page_index # rev (take (nat page_index) pages)"
    proof -
      have "nat (page_index + 1) = Suc (nat page_index)"
        using True by simp
      moreover have "nat page_index < length pages"
        using True inb by simp
      ultimately show ?thesis
        by (simp add: take_Suc_conv_app_nth)
    qed
    let ?c = "wprintPage h (pages ! nat page_index) (Some pathname) False True"
    show ?thesis
    proof (cases "wprintPage_result X log ?c = OK")
      case ok: True
      have "print_face_up X h pathname pages (page_index - 1) OK (log @ [?c]) =
              Inr (transmit_list X h pathname OK (log @ [?c])
                     (rev (take (nat (page_index - 1 + 1)) pages)))"
        using "1.prems" True ok by (intro "1.IH" [OF True inb]) auto
      then show ?thesis
        using True inb ok split by (subst print_face_up.simps) simp
    next
      case False
      then show ?thesis
        using True inb split by (subst print_face_up.simps) simp
    qed
  qed
qed

lemma print_pdf_pages_list:
  assumes "0 \<le> num_index doc" and "num_index doc \<le> int (length (pages_ary doc))"
  shows "print_pdf_pages X h caps pathname (num_index doc) (pages_ary doc) log =
           Inr (transmit_list X h pathname ERROR log
                  (if faceDownTray caps then resolved doc else rev (resolved doc)))"
proof (cases "faceDownTray caps")
  case True
  then show ?thesis
    using print_face_down_list [of 0 "num_index doc" "pages_ary doc" X h pathname ERROR log] assms
    by (simp add: print_pdf_pages_def resolved_def)
next
  case False
  then show ?thesis
    using print_face_up_list [of "num_index doc - 1" "pages_ary doc" X h pathname ERROR log] assms
    by (simp add: print_pdf_pages_def resolved_def)
qed

text \<open>One round of the document loop, for a document whose resolved list lies inside its row.\<close>

lemma send_document_list:
  assumes "0 \<le> num_index doc" and "num_index doc \<le> int (length (pages_ary doc))"
  shows "send_document H X h caps mime page doc pageIndex log =
           Inr (transmit_document H X h caps mime page doc pageIndex log)"
  using print_pdf_pages_list [OF assms]
  by (simp add: send_document_def transmit_document_def split: option.splits)

text \<open>The loop over the documents, face down: indices \<open>index, index + 1, \<dots>\<close>.\<close>

lemma send_documents_face_down:
  "length docs = length fileArray \<Longrightarrow>
   \<forall>d\<in>set docs. 0 \<le> num_index d \<and> num_index d \<le> int (length (pages_ary d)) \<Longrightarrow>
   1 \<le> pageIndex \<Longrightarrow> index = pageIndex - 1 \<Longrightarrow> pageIndex \<le> int (length fileArray) + 1 \<Longrightarrow>
   send_documents H X h caps mime fileArray docs 1 pageIndex index result log =
     Inr (documents_in_order H X h caps mime fileArray docs pageIndex result log
            [nat index..<length fileArray])"
proof (induction H X h caps mime fileArray docs "1::int" pageIndex index result log
       rule: send_documents.induct)
  case (1 H X h caps mime fileArray docs pageIndex index result log)
  show ?case
  proof (cases "pageIndex \<le> int (length fileArray)")
    case False
    then have e: "[nat index..<length fileArray] = []"
      using "1.prems" by simp
    show ?thesis
      by (subst send_documents.simps) (simp add: e False)
  next
    case le: True
    have inb: "0 \<le> index \<and> index < int (length fileArray) \<and> index < int (length docs)"
      using le "1.prems" by simp
    have split: "[nat index..<length fileArray] = nat index # [nat (index + 1)..<length fileArray]"
    proof -
      have "nat index < length fileArray"
        using inb by (simp add: nat_less_iff)
      from upt_conv_Cons [OF this] show ?thesis
        using inb by (simp add: nat_add_distrib)
    qed
    show ?thesis
    proof (cases "result = OK")
      case False
      then show ?thesis
        using split by (subst send_documents.simps) simp
    next
      case ok: True
      have "docs ! nat index \<in> set docs"
        using inb by (simp add: nat_less_iff)
      then have wf: "0 \<le> num_index (docs ! nat index)"
        "num_index (docs ! nat index) \<le> int (length (pages_ary (docs ! nat index)))"
        using "1.prems"(2) by auto
      let ?t = "transmit_document H X h caps mime (fileArray ! nat index) (docs ! nat index)
                  pageIndex log"
      have one: "send_document H X h caps mime (fileArray ! nat index) (docs ! nat index)
                   pageIndex log = Inr (fst ?t, snd ?t)"
        using send_document_list [OF wf] by simp
      have "send_documents H X h caps mime fileArray docs 1 (pageIndex + 1) (index + 1)
              (fst ?t) (snd ?t) =
            Inr (documents_in_order H X h caps mime fileArray docs (pageIndex + 1) (fst ?t) (snd ?t)
                   [nat (index + 1)..<length fileArray])"
        using "1.prems" le
        by (intro "1.hyps" [OF _ _ one refl]) (use ok le inb in auto)
      then show ?thesis
        using ok le inb split one by (subst send_documents.simps) (simp add: case_prod_beta)
    qed
  qed
qed

lemma send_documents_face_up:
  "length docs = length fileArray \<Longrightarrow>
   \<forall>d\<in>set docs. 0 \<le> num_index d \<and> num_index d \<le> int (length (pages_ary d)) \<Longrightarrow>
   1 \<le> pageIndex \<Longrightarrow> index = int (length fileArray) - pageIndex \<Longrightarrow>
   pageIndex \<le> int (length fileArray) + 1 \<Longrightarrow>
   send_documents H X h caps mime fileArray docs (- 1) pageIndex index result log =
     Inr (documents_in_order H X h caps mime fileArray docs pageIndex result log
            (rev [0..<nat (index + 1)]))"
proof (induction H X h caps mime fileArray docs "- 1::int" pageIndex index result log
       rule: send_documents.induct)
  case (1 H X h caps mime fileArray docs pageIndex index result log)
  show ?case
  proof (cases "pageIndex \<le> int (length fileArray)")
    case False
    then have e: "[0..<nat (index + 1)] = []"
      using "1.prems" by simp
    show ?thesis
      by (subst send_documents.simps) (simp add: e False)
  next
    case le: True
    have inb: "0 \<le> index \<and> index < int (length fileArray) \<and> index < int (length docs)"
      using le "1.prems" by simp
    have split: "rev [0..<nat (index + 1)] = nat index # rev [0..<nat (index + - 1 + 1)]"
      using inb by (simp add: nat_add_distrib)
    show ?thesis
    proof (cases "result = OK")
      case False
      then show ?thesis
        using split by (subst send_documents.simps) simp
    next
      case ok: True
      have "docs ! nat index \<in> set docs"
        using inb by (simp add: nat_less_iff)
      then have wf: "0 \<le> num_index (docs ! nat index)"
        "num_index (docs ! nat index) \<le> int (length (pages_ary (docs ! nat index)))"
        using "1.prems"(2) by auto
      let ?t = "transmit_document H X h caps mime (fileArray ! nat index) (docs ! nat index)
                  pageIndex log"
      have one: "send_document H X h caps mime (fileArray ! nat index) (docs ! nat index)
                   pageIndex log = Inr (fst ?t, snd ?t)"
        using send_document_list [OF wf] by simp
      have "send_documents H X h caps mime fileArray docs (- 1) (pageIndex + 1) (index + - 1)
              (fst ?t) (snd ?t) =
            Inr (documents_in_order H X h caps mime fileArray docs (pageIndex + 1) (fst ?t) (snd ?t)
                   (rev [0..<nat (index + - 1 + 1)]))"
        using "1.prems" le
        by (intro "1.hyps" [OF _ _ one refl]) (use ok le inb in auto)
      then show ?thesis
        using ok le inb split one by (subst send_documents.simps) (simp add: case_prod_beta)
    qed
  qed
qed

text \<open>
  Lines 1950 to 1988 as a whole: the orientation of the tray chooses the order of the
  documents, and the job is closed after the last of them.
\<close>

lemma submit_job_in_order:
  assumes "length docs = length fileArray"
    and "\<forall>d\<in>set docs. 0 \<le> num_index d \<and> num_index d \<le> int (length (pages_ary d))"
  shows "submit_job H X h caps mime fileArray docs =
           Inr (job_in_order H X h caps mime fileArray docs
                  (if faceDownTray caps then [0..<length fileArray]
                   else rev [0..<length fileArray]))"
proof (cases "faceDownTray caps")
  case True
  have "send_documents H X h caps mime fileArray docs 1 1 0 OK [] =
          Inr (documents_in_order H X h caps mime fileArray docs 1 OK [] [0..<length fileArray])"
    using send_documents_face_down [OF assms, of 1 0 H X h caps mime OK "[]"] by simp
  then show ?thesis
    using True by (auto simp: submit_job_def job_in_order_def split: prod.splits)
next
  case False
  have "send_documents H X h caps mime fileArray docs (- 1) 1 (int (length fileArray) - 1) OK [] =
          Inr (documents_in_order H X h caps mime fileArray docs 1 OK []
                 (rev [0..<length fileArray]))"
    using send_documents_face_up [OF assms, of 1 "int (length fileArray) - 1" H X h caps mime
        OK "[]"] by simp
  then show ?thesis
    using False by (auto simp: submit_job_def job_in_order_def split: prod.splits)
qed

text \<open>The rows that the resolution of the documents leaves hold their lists inside.\<close>

lemma resolve_documents_rows:
  "resolve_documents H X mime jobParams result fs = Inr docs \<Longrightarrow>
   \<forall>f\<in>set fs. 0 \<le> num_index (snd f) \<and> num_index (snd f) \<le> int (length (pages_ary (snd f))) \<Longrightarrow>
   length docs = length fs
   \<and> (\<forall>d\<in>set docs. 0 \<le> num_index d \<and> num_index d \<le> int (length (pages_ary d)))"
proof (induction fs arbitrary: result docs)
  case Nil
  then show ?case by simp
next
  case (Cons f fs)
  obtain page st where f: "f = (page, st)" by (cases f)
  have st: "0 \<le> num_index st \<and> num_index st \<le> int (length (pages_ary st))"
    and rest: "\<forall>f\<in>set fs. 0 \<le> num_index (snd f)
                 \<and> num_index (snd f) \<le> int (length (pages_ary (snd f)))"
    using Cons.prems(2) f by auto
  show ?case
  proof (cases "result = OK")
    case False
    then have "docs = st # map snd fs"
      using Cons.prems(1) f by simp
    then show ?thesis
      using st rest by auto
  next
    case ok: True
    from Cons.prems(1) ok f consider
        (same) r sts where "resolve_documents H X mime jobParams r fs = Inr sts" "docs = st # sts"
      | (pdf) pc str st' sts where
          "get_pdf_page_range (page_range jobParams) (st\<lparr>num_index := 0\<rparr>) pc = Inr (str, st')"
          "resolve_documents H X mime jobParams OK fs = Inr sts" "docs = st' # sts"
      by (auto split: option.splits sum.splits prod.splits bool.splits)
    then show ?thesis
    proof cases
      case same
      from Cons.IH [OF same(1) rest] same(2) st show ?thesis by auto
    next
      case pdf
      have "st\<lparr>num_index := 0\<rparr> = \<lparr>pages_ary = pages_ary st, num_index = 0\<rparr>"
        by (cases st) simp
      with pdf(1) have "num_index st' = int (length (resolved st'))"
        using get_pdf_page_range_count by metis
      then have "0 \<le> num_index st' \<and> num_index st' \<le> int (length (pages_ary st'))"
        by (simp add: resolved_def)
      with Cons.IH [OF pdf(2) rest] pdf(3) show ?thesis by auto
    qed
  qed
qed

lemma length_initial_rows: "length (initial_rows stack n) = n"
  by (simp add: initial_rows_def)

lemma resolved_documents_rows:
  assumes "resolve_documents H X mime jobParams OK
             (zip fileArray (initial_rows stack (length fileArray))) = Inr docs"
  shows "length docs = length fileArray
         \<and> (\<forall>d\<in>set docs. 0 \<le> num_index d \<and> num_index d \<le> int (length (pages_ary d)))"
proof -
  have "\<forall>f\<in>set (zip fileArray (initial_rows stack (length fileArray))).
          0 \<le> num_index (snd f) \<and> num_index (snd f) \<le> int (length (pages_ary (snd f)))"
    by (auto simp: initial_rows_def dest!: set_zip_rightD)
  from resolve_documents_rows [OF assms this] show ?thesis
    by (simp add: length_initial_rows)
qed

text \<open>\<open>nativeStartJob\<close> for a job that the library accepts.\<close>

lemma nativeStartJob_in_order:
  assumes "fileArray \<noteq> []"
    and docs: "resolve_documents H X mime jobParams OK
                 (zip fileArray (initial_rows stack (length fileArray))) = Inr docs"
    and "set_print_scaling H X jobParams (smart_duplex H mime fileArray docs params) caps = Inr p"
    and "wprintStartJob X p = Some h"
  shows "nativeStartJob H X stack mime jobParams params caps fileArray =
           Inr \<lparr>returned_handle =
                  fst (job_in_order H X h caps mime fileArray docs
                         (if faceDownTray caps then [0..<length fileArray]
                          else rev [0..<length fileArray])),
                started_with = Some p,
                calls =
                  snd (job_in_order H X h caps mime fileArray docs
                         (if faceDownTray caps then [0..<length fileArray]
                          else rev [0..<length fileArray]))\<rparr>"
proof -
  from resolved_documents_rows [OF docs]
  have "submit_job H X h caps mime fileArray docs =
           Inr (job_in_order H X h caps mime fileArray docs
                  (if faceDownTray caps then [0..<length fileArray]
                   else rev [0..<length fileArray]))"
    by (intro submit_job_in_order) auto
  then show ?thesis
    using assms by (simp add: nativeStartJob_def split: prod.splits)
qed

lemma send_documents_done:
  "int (length fileArray) < pageIndex \<Longrightarrow>
     send_documents H X h caps mime fileArray docs incrementor pageIndex index result log
       = Inr (pageIndex, result, log)"
  by (subst send_documents.simps) simp

text \<open>
  Claim C3. Within a document whose resolved list lies inside its row,
  \<open>_print_pdf_pages\<close> transmits the resolved list in its given order when the tray is
  face down and in reverse when it is face up, and stops at the first result that is
  not \<open>OK\<close> (\<open>transmit_list\<close>). Across documents, lines 1950 to 1988 of \<open>nativeStartJob\<close>
  (\<open>submit_job\<close>), with the start index and the step that they choose themselves, submit
  the documents \<open>0, 1, \<dots>, len - 1\<close> when face down and \<open>len - 1, \<dots>, 1, 0\<close> when face up,
  until a result is not \<open>OK\<close> (\<open>job_in_order\<close>); with three documents and a face-up tray
  the order is \<open>[2, 1, 0]\<close>. The calls that \<open>nativeStartJob\<close> as a whole makes for a job
  that the library accepts are those of the resolved documents in that order.
\<close>

theorem page_order_composer:
  assumes "0 \<le> num_index doc" and "num_index doc \<le> int (length (pages_ary doc))"
    and "length docs = length fileArray"
    and "\<forall>d\<in>set docs. 0 \<le> num_index d \<and> num_index d \<le> int (length (pages_ary d))"
    and "files \<noteq> []"
    and "resolve_documents H X mime jobParams OK
           (zip files (initial_rows stack (length files))) = Inr rows"
    and "set_print_scaling H X jobParams (smart_duplex H mime files rows params) caps = Inr p"
    and "wprintStartJob X p = Some handle"
  shows "print_pdf_pages X h caps pathname (num_index doc) (pages_ary doc) log
           = Inr (transmit_list X h pathname ERROR log
                    (if faceDownTray caps then resolved doc else rev (resolved doc)))
       \<and> submit_job H X h caps mime fileArray docs
           = Inr (job_in_order H X h caps mime fileArray docs
                    (if faceDownTray caps then [0..<length fileArray]
                     else rev [0..<length fileArray]))
       \<and> (length fileArray = 3 \<and> \<not> faceDownTray caps \<longrightarrow>
            submit_job H X h caps mime fileArray docs
              = Inr (job_in_order H X h caps mime fileArray docs [2, 1, 0]))
       \<and> map_sum id calls (nativeStartJob H X stack mime jobParams params caps files)
           = Inr (snd (job_in_order H X handle caps mime files rows
                         (if faceDownTray caps then [0..<length files]
                          else rev [0..<length files])))"
proof -
  have pages: "print_pdf_pages X h caps pathname (num_index doc) (pages_ary doc) log
           = Inr (transmit_list X h pathname ERROR log
                    (if faceDownTray caps then resolved doc else rev (resolved doc)))"
    by (rule print_pdf_pages_list [OF assms(1,2)])
  have job: "submit_job H X h caps mime fileArray docs
           = Inr (job_in_order H X h caps mime fileArray docs
                    (if faceDownTray caps then [0..<length fileArray]
                     else rev [0..<length fileArray]))"
    by (rule submit_job_in_order [OF assms(3,4)])
  have three: "rev [0..<3] = [2, 1, 0::nat]"
    by (simp add: upt_rec)
  have up: "length fileArray = 3 \<and> \<not> faceDownTray caps \<longrightarrow>
            submit_job H X h caps mime fileArray docs
              = Inr (job_in_order H X h caps mime fileArray docs [2, 1, 0])"
    using job three by auto
  have whole: "map_sum id calls (nativeStartJob H X stack mime jobParams params caps files)
           = Inr (snd (job_in_order H X handle caps mime files rows
                         (if faceDownTray caps then [0..<length files]
                          else rev [0..<length files])))"
    by (simp add: nativeStartJob_in_order [OF assms(5,6,7,8)])
  from pages job up whole show ?thesis
    by (intro conjI)
qed

lemma resolve_documents_not_pdf:
  "mime \<noteq> Some (MIME_TYPE_PDF H) \<Longrightarrow>
     resolve_documents H X mime jobParams result fs = Inr (map snd fs)"
proof (induction fs arbitrary: result)
  case Nil
  then show ?case by simp
next
  case (Cons f fs)
  obtain page st where f: "f = (page, st)" by (cases f)
  show ?case
    using Cons.prems Cons.IH [OF Cons.prems]
    by (auto simp: f get_pdf_page_count_def is_pdf_doc_def split: option.splits)
qed

lemma not_pdf_documents:
  "mime \<noteq> Some (MIME_TYPE_PDF H) \<Longrightarrow>
     resolve_documents H X mime jobParams OK (zip fileArray (initial_rows stack (length fileArray)))
       = Inr (initial_rows stack (length fileArray))"
  by (simp add: resolve_documents_not_pdf length_initial_rows)


text \<open>
  The theorem at a face-up printer: a document with the resolved list \<open>[2, 3, 4, 5]\<close>
  whose page 3 fails to transmit, and a job of three images.
\<close>

theorem page_order_composer_witness:
  "print_pdf_pages \<lparr>openDocument = (\<lambda>p. 5), print_format = ''PDF'',
        wprintStartJob = (\<lambda>p. Some 7),
        wprintPage_result = (\<lambda>log c. if page_num c = 3 then ERROR else OK)\<rparr> 7
      \<lparr>faceDownTray = False, print_scalings_supported = [], print_scaling_default = []\<rparr>
      ''a.pdf'' 4 [2, 3, 4, 5, 0, 0] []
     = Inr (ERROR, [wprintPage 7 5 (Some ''a.pdf'') False True,
                   wprintPage 7 4 (Some ''a.pdf'') False True,
                   wprintPage 7 3 (Some ''a.pdf'') False True])
   \<and> submit_job
        \<lparr>MIME_TYPE_PDF = ''application/pdf'', PRINT_FORMAT_PDF = ''PDF'',
           MAX_PRINT_SCALING_LENGTH = 32, sizeof_print_scaling_default = 32,
           sizeof_params_print_scaling = 32, IPP_JOB_STATE_REASON_MAX_VALUE = 17,
           PRINT_STATUS_MAX_STATE = 50, reason_mask = (\<lambda>m. 0),
           int_shift_undefined = (\<lambda>i. 0)\<rparr>
        \<lparr>openDocument = (\<lambda>p. 5), print_format = ''PDF'',
           wprintStartJob = (\<lambda>p. Some 7),
           wprintPage_result = (\<lambda>log c. if page_num c = 3 then ERROR else OK)\<rparr> 7
        \<lparr>faceDownTray = False, print_scalings_supported = [], print_scaling_default = []\<rparr>
        (Some ''image/jpeg'') [Some ''a.jpg'', Some ''b.jpg'', Some ''c.jpg'']
        [\<lparr>pages_ary = [], num_index = 0\<rparr>, \<lparr>pages_ary = [], num_index = 0\<rparr>,
         \<lparr>pages_ary = [], num_index = 0\<rparr>]
     = Inr (None, [wprintPage 7 1 (Some ''c.jpg'') False False,
                   wprintPage 7 2 (Some ''b.jpg'') False False,
                   wprintPage 7 3 (Some ''a.jpg'') False False,
                   wprintPage 7 4 None True False,
                   wprintCancelJob 7, wprintEndJob 7])
   \<and> map_sum id calls (nativeStartJob
        \<lparr>MIME_TYPE_PDF = ''application/pdf'', PRINT_FORMAT_PDF = ''PDF'',
           MAX_PRINT_SCALING_LENGTH = 32, sizeof_print_scaling_default = 32,
           sizeof_params_print_scaling = 32, IPP_JOB_STATE_REASON_MAX_VALUE = 17,
           PRINT_STATUS_MAX_STATE = 50, reason_mask = (\<lambda>m. 0),
           int_shift_undefined = (\<lambda>i. 0)\<rparr>
        \<lparr>openDocument = (\<lambda>p. 5), print_format = ''PDF'',
           wprintStartJob = (\<lambda>p. Some 7),
           wprintPage_result = (\<lambda>log c. if page_num c = 3 then ERROR else OK)\<rparr>
        (\<lambda>i j. 0) (Some ''image/jpeg'')
        \<lparr>page_range = None, shared_photo = False, preserve_scaling = False\<rparr>
        \<lparr>duplex = DUPLEX_MODE_NONE, docCategory = ''Doc'', print_scaling = []\<rparr>
        \<lparr>faceDownTray = False, print_scalings_supported = [], print_scaling_default = []\<rparr>
        [Some ''a.jpg'', Some ''b.jpg''])
     = Inr [wprintPage 7 1 (Some ''b.jpg'') False False,
            wprintPage 7 2 (Some ''a.jpg'') False False,
            wprintPage 7 3 None True False]"
proof -
  let ?H = "\<lparr>MIME_TYPE_PDF = ''application/pdf'', PRINT_FORMAT_PDF = ''PDF'',
           MAX_PRINT_SCALING_LENGTH = 32, sizeof_print_scaling_default = 32,
           sizeof_params_print_scaling = 32, IPP_JOB_STATE_REASON_MAX_VALUE = 17,
           PRINT_STATUS_MAX_STATE = 50, reason_mask = (\<lambda>m. 0),
           int_shift_undefined = (\<lambda>i. 0)\<rparr>"
  let ?X = "\<lparr>openDocument = (\<lambda>p. 5), print_format = ''PDF'',
        wprintStartJob = (\<lambda>p. Some 7),
        wprintPage_result = (\<lambda>log c. if page_num c = 3 then ERROR else OK)\<rparr>"
  let ?caps = "\<lparr>faceDownTray = False, print_scalings_supported = [],
        print_scaling_default = []\<rparr>"
  let ?jobParams = "\<lparr>page_range = None, shared_photo = False, preserve_scaling = False\<rparr>"
  let ?params = "\<lparr>duplex = DUPLEX_MODE_NONE, docCategory = ''Doc'', print_scaling = []\<rparr>"
  let ?p = "\<lparr>duplex = DUPLEX_MODE_NONE, docCategory = ''Doc'', print_scaling = ''fit''\<rparr>"
  let ?doc = "\<lparr>pages_ary = [2, 3, 4, 5, 0, 0], num_index = 4\<rparr>"
  let ?docs = "[\<lparr>pages_ary = [], num_index = 0\<rparr>, \<lparr>pages_ary = [], num_index = 0\<rparr>,
         \<lparr>pages_ary = ([]::int list), num_index = 0\<rparr>]"
  let ?fileArray = "[Some ''a.jpg'', Some ''b.jpg'', Some ''c.jpg'']"
  let ?files = "[Some ''a.jpg'', Some ''b.jpg'']"
  let ?rows = "initial_rows (\<lambda>i j. 0) (length ?files)"
  have a: "0 \<le> num_index ?doc" by simp
  have b: "num_index ?doc \<le> int (length (pages_ary ?doc))" by simp
  have c: "length ?docs = length ?fileArray" by simp
  have d: "\<forall>d\<in>set ?docs. 0 \<le> num_index d \<and> num_index d \<le> int (length (pages_ary d))"
    by simp
  have e: "?files \<noteq> []" by simp
  have f: "resolve_documents ?H ?X (Some ''image/jpeg'') ?jobParams OK
             (zip ?files (initial_rows (\<lambda>i j. 0) (length ?files))) = Inr ?rows"
    by (rule not_pdf_documents) simp
  have g: "set_print_scaling ?H ?X ?jobParams
             (smart_duplex ?H (Some ''image/jpeg'') ?files ?rows ?params) ?caps = Inr ?p"
    by (simp add: smart_duplex_def set_print_scaling_def choose_print_scaling_def strlcpy_def)
  have h: "wprintStartJob ?X ?p = Some 7" by simp
  have two: "rev [0..<2] = [1, 0::nat]"
    by (simp add: upt_rec)
  have rows: "?rows ! 0 = \<lparr>pages_ary = map (\<lambda>j. 0) [0..<MAX_NUM_PAGES], num_index = 0\<rparr>"
    "?rows ! 1 = \<lparr>pages_ary = map (\<lambda>j. 0) [0..<MAX_NUM_PAGES], num_index = 0\<rparr>"
    by (simp_all add: initial_rows_def)
  show ?thesis
    using page_order_composer [OF a b c d e f g h, where h = 7 and pathname = "''a.pdf''"
        and log = "[]"]
    by (simp add: resolved_def job_in_order_def transmit_document_def is_pdf_doc_def two)
qed

section \<open>The end marker\<close>







section \<open>Smart duplex\<close>

lemma set_print_scaling_duplex:
  "set_print_scaling H X jobParams params caps = Inr p \<Longrightarrow>
     duplex p = duplex params \<and> docCategory p = docCategory params"
  by (auto simp: set_print_scaling_def split: sum.splits)

lemma initial_rows_one:
  "initial_rows stack (Suc 0) = [\<lparr>pages_ary = map (stack 0) [0..<MAX_NUM_PAGES], num_index = 0\<rparr>]"
  by (simp add: initial_rows_def)

text \<open>
  Claim C5. In a job of exactly one document, the parameters the job is started with
  have duplex off when the document is not a PDF, and when it is a PDF whose resolved
  page list has exactly one page; with any other number of resolved pages the duplex
  mode is the configured one.
\<close>

theorem smart_duplex_single_document:
  assumes "nativeStartJob H X stack mime jobParams params caps [page] = Inr out"
  shows "\<exists>p. started_with out = Some p \<and>
          (if is_pdf_doc H mime page
           then (\<exists>str pages.
                   resolve_pages (page_range jobParams) (map (stack 0) [0..<MAX_NUM_PAGES])
                     (snd (get_pdf_page_count H X mime page)) = Inr (str, pages)
                   \<and> duplex p = (if length pages = 1 then DUPLEX_MODE_NONE else duplex params))
           else duplex p = DUPLEX_MODE_NONE)"
proof -
  let ?row = "map (stack 0) [0..<MAX_NUM_PAGES]"
  let ?st0 = "\<lparr>pages_ary = ?row, num_index = 0\<rparr>"
  from assms obtain docs p where
    docs: "resolve_documents H X mime jobParams OK [(page, ?st0)] = Inr docs"
    and p: "set_print_scaling H X jobParams (smart_duplex H mime [page] docs params) caps = Inr p"
    and started: "started_with out = Some p"
    by (auto simp: nativeStartJob_def initial_rows_one split: sum.splits option.splits)
  note keep = set_print_scaling_duplex [OF p]
  show ?thesis
  proof (cases "is_pdf_doc H mime page")
    case False
    then have "duplex p = DUPLEX_MODE_NONE"
      using keep by (simp add: smart_duplex_def)
    with False started show ?thesis by simp
  next
    case True
    then obtain pathname where page: "page = Some pathname"
      by (auto simp: is_pdf_doc_def split: option.splits)
    obtain pc where pc: "get_pdf_page_count H X mime page = (True, pc)"
      using True page by (simp add: get_pdf_page_count_def)
    from docs obtain str st' where
      res: "get_pdf_page_range (page_range jobParams) ?st0 pc = Inr (str, st')"
      and d: "docs = [st']"
      using page pc by (auto split: sum.splits)
    have "resolve_pages (page_range jobParams) ?row (snd (get_pdf_page_count H X mime page))
            = Inr (str, resolved st')"
      using res pc by (simp add: resolve_pages_def resolve_document_def)
    moreover have "duplex p = (if length (resolved st') = 1 then DUPLEX_MODE_NONE else duplex params)"
      using keep True d get_pdf_page_range_count [OF res] by (auto simp: smart_duplex_def)
    ultimately show ?thesis
      using True started by auto
  qed
qed

text \<open>A job of one PDF document, in terms of its resolved list.\<close>

lemma single_pdf_job:
  assumes mime: "mime = Some (MIME_TYPE_PDF H)"
    and pc: "pc = (if openDocument X pathname < 0 then 0 else openDocument X pathname)"
    and res: "resolve_pages (page_range jobParams) (map (stack 0) [0..<MAX_NUM_PAGES]) pc
                = Inr (str, pages)"
    and scal: "set_print_scaling H X jobParams
                 (if length pages = 1 then params\<lparr>duplex := DUPLEX_MODE_NONE\<rparr> else params) caps
                = Inr p"
    and start: "wprintStartJob X p = Some h"
    and sent: "transmit_list X h pathname ERROR [] (if faceDownTray caps then pages else rev pages)
                = (r, log)"
  shows "nativeStartJob H X stack mime jobParams params caps [Some pathname] =
           Inr \<lparr>returned_handle = (if r = OK then Some h else None),
                started_with = Some p,
                calls = log @ wprintPage h 2 None True False
                          # (if r = OK then [] else [wprintCancelJob h, wprintEndJob h])\<rparr>"
proof -
  let ?row = "map (stack 0) [0..<MAX_NUM_PAGES]"
  let ?st0 = "\<lparr>pages_ary = ?row, num_index = 0\<rparr>"
  from res obtain st' where st': "get_pdf_page_range (page_range jobParams) ?st0 pc = Inr (str, st')"
    and pages: "pages = resolved st'"
    by (auto simp: resolve_pages_def resolve_document_def split: sum.splits)
  note cnt = get_pdf_page_range_count [OF st']
  have wf: "0 \<le> num_index st'" "num_index st' \<le> int (length (pages_ary st'))"
    using cnt by (simp_all add: resolved_def)
  have pdf: "is_pdf_doc H mime (Some pathname)"
    using mime by (simp add: is_pdf_doc_def)
  have docs: "resolve_documents H X mime jobParams OK [(Some pathname, ?st0)] = Inr [st']"
    using pdf pc st' by (simp add: get_pdf_page_count_def)
  have dup: "smart_duplex H mime [Some pathname] [st'] params
               = (if length pages = 1 then params\<lparr>duplex := DUPLEX_MODE_NONE\<rparr> else params)"
    using pdf cnt pages by (auto simp: smart_duplex_def)
  have one: "send_document H X h caps mime (Some pathname) st' 1 [] = Inr (r, log)"
    using pdf print_pdf_pages_list [OF wf, of X h caps pathname "[]"] sent
    unfolding pages by (auto simp: send_document_def)
  have loop: "send_documents H X h caps mime [Some pathname] [st']
                (if faceDownTray caps then 1 else - 1) 1
                (if faceDownTray caps then 0 else int (length [Some pathname]) - 1) OK []
              = Inr (2, r, log)"
    using one
    by (subst send_documents.simps) (simp add: send_documents_done)
  have "submit_job H X h caps mime [Some pathname] [st'] =
          Inr (if r = OK then Some h else None,
               log @ wprintPage h 2 None True False
                 # (if r = OK then [] else [wprintCancelJob h, wprintEndJob h]))"
    using loop by (simp add: submit_job_def)
  then show ?thesis
    using docs dup scal start by (simp add: nativeStartJob_def initial_rows_one)
qed

text \<open>
  The theorem at a PDF of 5 pages printed with the page range \<open>"3"\<close>: one resolved page,
  and the configured duplex mode is replaced by \<open>DUPLEX_MODE_NONE\<close>.
\<close>

theorem smart_duplex_single_document_witness:
  "resolve_pages (Some ''3'') (map ((\<lambda>i j. 0) 0) [0..<MAX_NUM_PAGES]) 5 = Inr (''3'', [3])
   \<and> duplex \<lparr>duplex = DUPLEX_MODE_NONE, docCategory = ''Doc'', print_scaling = ''auto''\<rparr>
       = (if length [3::int] = 1 then DUPLEX_MODE_NONE
          else duplex \<lparr>duplex = DUPLEX_MODE_OTHER 1, docCategory = ''Doc'', print_scaling = []\<rparr>)"
proof -
  let ?H = "\<lparr>MIME_TYPE_PDF = ''application/pdf'', PRINT_FORMAT_PDF = ''PDF'',
           MAX_PRINT_SCALING_LENGTH = 32, sizeof_print_scaling_default = 32,
           sizeof_params_print_scaling = 32, IPP_JOB_STATE_REASON_MAX_VALUE = 17,
           PRINT_STATUS_MAX_STATE = 50, reason_mask = (\<lambda>m. 0),
           int_shift_undefined = (\<lambda>i. 0)\<rparr>"
  let ?X = "\<lparr>openDocument = (\<lambda>p. 5), print_format = ''PDF'',
           wprintStartJob = (\<lambda>p. Some 7), wprintPage_result = (\<lambda>log c. OK)\<rparr>"
  let ?J = "\<lparr>page_range = Some ''3'', shared_photo = False, preserve_scaling = False\<rparr>"
  let ?P = "\<lparr>duplex = DUPLEX_MODE_OTHER 1, docCategory = ''Doc'', print_scaling = []\<rparr>"
  let ?C = "\<lparr>faceDownTray = True, print_scalings_supported = [''auto''],
            print_scaling_default = []\<rparr>"
  let ?p = "\<lparr>duplex = DUPLEX_MODE_NONE, docCategory = ''Doc'', print_scaling = ''auto''\<rparr>"
  let ?out = "\<lparr>returned_handle = Some 7, started_with = Some ?p,
               calls = [wprintPage 7 3 (Some ''a.pdf'') False True,
                        wprintPage 7 2 None True False]\<rparr>"
  have r: "requested_range (Some ''3'') = Some ''3''" by code_simp
  have t: "strtok_all ''3'' = [''3'']" by code_simp
  have b: "segment_bounds ''3'' = Some (3, 3)" by code_simp
  have pr: "page_run 3 3 = [3]" by code_simp
  have "resolve_pages (Some ''3'') (map ((\<lambda>i j. 0) 0) [0..<MAX_NUM_PAGES]) 5
          = Inr (''3'', concat (map (\<lambda>(b, e). page_run b e) [(3, 3)]))"
    by (rule resolve_pages_valid [OF _ r]) (simp_all add: t b pr MAX_NUM_PAGES_def)
  then have res: "resolve_pages (page_range ?J) (map ((\<lambda>i j. 0) 0) [0..<MAX_NUM_PAGES])
           (if openDocument ?X ''a.pdf'' < 0 then 0 else openDocument ?X ''a.pdf'') = Inr (''3'', [3])"
    by (simp add: pr MAX_NUM_PAGES_def)
  have run: "nativeStartJob ?H ?X (\<lambda>i j. 0) (Some ''application/pdf'') ?J ?P ?C [Some ''a.pdf'']
               = Inr ?out"
    using single_pdf_job [where H = ?H and X = ?X and caps = ?C and params = ?P and p = ?p
        and h = 7 and r = OK
        and log = "[wprintPage 7 3 (Some ''a.pdf'') False True]", OF _ refl res]
    by (simp add: set_print_scaling_def choose_print_scaling_def strlcpy_def strcasecmp_eq_def)
  from smart_duplex_single_document [OF run] res show ?thesis
    by (simp add: is_pdf_doc_def get_pdf_page_count_def)
qed

section \<open>The scaling policy\<close>

lemma strlcpy_fits:
  "length s < dsize \<Longrightarrow> length s < cap \<Longrightarrow> strlcpy cap old s dsize = Inr s"
  by (simp add: strlcpy_def)

text \<open>
  Claim C4. The scaling written into the job parameters is: for a format other than
  PDF pass-through, \<open>"none"\<close> when the printer supports it and the empty string
  otherwise; for PDF pass-through with neither a shared photo nor preserved scaling,
  \<open>"auto"\<close> when supported, else the printer's default when that is not empty, else
  \<open>"fit"\<close> (and for PDF pass-through with one of the two, \<open>"none"\<close> when supported and the
  empty string otherwise). The buffers are declared in lib_wprint.h: they are assumed
  to hold the literals and the printer's default with their NUL.
\<close>

theorem scaling_policy_selector:
  assumes "5 \<le> MAX_PRINT_SCALING_LENGTH H" and "5 \<le> sizeof_params_print_scaling H"
    and "length (print_scaling_default caps) < sizeof_print_scaling_default H"
    and "length (print_scaling_default caps) < MAX_PRINT_SCALING_LENGTH H"
    and "length (print_scaling_default caps) < sizeof_params_print_scaling H"
  shows "set_print_scaling H X jobParams params caps =
           Inr (params\<lparr>print_scaling :=
             (if print_format X \<noteq> PRINT_FORMAT_PDF H then
                (if ''none'' \<in> set (print_scalings_supported caps) then ''none'' else [])
              else if (strcasecmp_eq (docCategory params) ''Photo'' \<and> shared_photo jobParams)
                      \<or> preserve_scaling jobParams then
                (if ''none'' \<in> set (print_scalings_supported caps) then ''none'' else [])
              else if ''auto'' \<in> set (print_scalings_supported caps) then ''auto''
              else if print_scaling_default caps \<noteq> [] then print_scaling_default caps
              else ''fit'')\<rparr>)
       \<and> (fileArray \<noteq> [] \<and> nativeStartJob H X stack mime jobParams params caps fileArray = Inr out \<longrightarrow>
            (\<exists>p. started_with out = Some p \<and> print_scaling p =
             (if print_format X \<noteq> PRINT_FORMAT_PDF H then
                (if ''none'' \<in> set (print_scalings_supported caps) then ''none'' else [])
              else if (strcasecmp_eq (docCategory params) ''Photo'' \<and> shared_photo jobParams)
                      \<or> preserve_scaling jobParams then
                (if ''none'' \<in> set (print_scalings_supported caps) then ''none'' else [])
              else if ''auto'' \<in> set (print_scalings_supported caps) then ''auto''
              else if print_scaling_default caps \<noteq> [] then print_scaling_default caps
              else ''fit'')))"
proof -
  define expected where "expected = (\<lambda>params :: wprint_job_params_t. (if print_format X \<noteq> PRINT_FORMAT_PDF H then
                (if ''none'' \<in> set (print_scalings_supported caps) then ''none'' else [])
              else if (strcasecmp_eq (docCategory params) ''Photo'' \<and> shared_photo jobParams)
                      \<or> preserve_scaling jobParams then
                (if ''none'' \<in> set (print_scalings_supported caps) then ''none'' else [])
              else if ''auto'' \<in> set (print_scalings_supported caps) then ''auto''
              else if print_scaling_default caps \<noteq> [] then print_scaling_default caps
              else ''fit''))"
  have lit: "strlcpy (MAX_PRINT_SCALING_LENGTH H) [] s (MAX_PRINT_SCALING_LENGTH H) = Inr s"
    if "length s < 5" for s
    using assms(1) that by (simp add: strlcpy_fits)
  have dflt: "strlcpy (MAX_PRINT_SCALING_LENGTH H) [] (print_scaling_default caps)
        (sizeof_print_scaling_default H) = Inr (print_scaling_default caps)"
    using assms(3,4) by (simp add: strlcpy_fits)
  have choose: "choose_print_scaling H X jobParams q caps = Inr (expected q)" for q
    by (simp add: choose_print_scaling_def expected_def lit dflt)
  have short: "length (expected q) < sizeof_params_print_scaling H" for q
    using assms(2,5) by (simp add: expected_def)
  have store: "strlcpy (sizeof_params_print_scaling H) old (expected q)
                  (sizeof_params_print_scaling H) = Inr (expected q)" for q old
    by (rule strlcpy_fits [OF short short])
  have all: "set_print_scaling H X jobParams q caps = Inr (q\<lparr>print_scaling := expected q\<rparr>)" for q
    by (simp add: set_print_scaling_def choose store)
  have job: "fileArray \<noteq> [] \<and> nativeStartJob H X stack mime jobParams params caps fileArray = Inr out
          \<longrightarrow> (\<exists>p. started_with out = Some p \<and> print_scaling p = expected params)"
  proof
    assume a: "fileArray \<noteq> [] \<and> nativeStartJob H X stack mime jobParams params caps fileArray = Inr out"
    then obtain docs where
      "started_with out = Some ((smart_duplex H mime fileArray docs params)
          \<lparr>print_scaling := expected (smart_duplex H mime fileArray docs params)\<rparr>)"
      by (auto simp: nativeStartJob_def all split: sum.splits option.splits)
    moreover have "docCategory (smart_duplex H mime fileArray docs params) = docCategory params"
      by (simp add: smart_duplex_def split: list.splits)
    then have "expected (smart_duplex H mime fileArray docs params) = expected params"
      by (simp add: expected_def)
    ultimately show "\<exists>p. started_with out = Some p \<and> print_scaling p = expected params"
      by simp
  qed
  from all [of params] job show ?thesis
    unfolding expected_def by blast
qed

text \<open>
  The theorem at buffers of 32 bytes, PDF pass-through without flags, a printer
  that does not support \<open>"auto"\<close> and has the default \<open>"fit-to-page"\<close>.
\<close>

theorem scaling_policy_selector_witness:
  "set_print_scaling
      \<lparr>MIME_TYPE_PDF = ''application/pdf'', PRINT_FORMAT_PDF = ''PDF'',
         MAX_PRINT_SCALING_LENGTH = 32, sizeof_print_scaling_default = 32,
         sizeof_params_print_scaling = 32, IPP_JOB_STATE_REASON_MAX_VALUE = 17,
         PRINT_STATUS_MAX_STATE = 50, reason_mask = (\<lambda>m. 0), int_shift_undefined = (\<lambda>i. 0)\<rparr>
      \<lparr>openDocument = (\<lambda>p. 2), print_format = ''PDF'',
         wprintStartJob = (\<lambda>p. Some 7), wprintPage_result = (\<lambda>log c. OK)\<rparr>
      \<lparr>page_range = None, shared_photo = False, preserve_scaling = False\<rparr>
      \<lparr>duplex = DUPLEX_MODE_NONE, docCategory = ''Doc'', print_scaling = []\<rparr>
      \<lparr>faceDownTray = True, print_scalings_supported = [''none'', ''fill''],
         print_scaling_default = ''fit-to-page''\<rparr>
    = Inr \<lparr>duplex = DUPLEX_MODE_NONE, docCategory = ''Doc'', print_scaling = ''fit-to-page''\<rparr>
   \<and> (\<exists>p. Some \<lparr>duplex = DUPLEX_MODE_NONE, docCategory = ''Doc'',
                  print_scaling = ''fit-to-page''\<rparr> = Some p
          \<and> print_scaling p = ''fit-to-page'')"
proof -
  let ?H = "\<lparr>MIME_TYPE_PDF = ''application/pdf'', PRINT_FORMAT_PDF = ''PDF'',
         MAX_PRINT_SCALING_LENGTH = 32, sizeof_print_scaling_default = 32,
         sizeof_params_print_scaling = 32, IPP_JOB_STATE_REASON_MAX_VALUE = 17,
         PRINT_STATUS_MAX_STATE = 50, reason_mask = (\<lambda>m. 0), int_shift_undefined = (\<lambda>i. 0)\<rparr>"
  let ?X = "\<lparr>openDocument = (\<lambda>p. 2), print_format = ''PDF'',
         wprintStartJob = (\<lambda>p. Some 7), wprintPage_result = (\<lambda>log c. OK)\<rparr>"
  let ?J = "\<lparr>page_range = None, shared_photo = False, preserve_scaling = False\<rparr>"
  let ?P = "\<lparr>duplex = DUPLEX_MODE_NONE, docCategory = ''Doc'', print_scaling = []\<rparr>"
  let ?C = "\<lparr>faceDownTray = True, print_scalings_supported = [''none'', ''fill''],
         print_scaling_default = ''fit-to-page''\<rparr>"
  let ?p = "\<lparr>duplex = DUPLEX_MODE_NONE, docCategory = ''Doc'', print_scaling = ''fit-to-page''\<rparr>"
  let ?out = "\<lparr>returned_handle = Some 7, started_with = Some ?p,
       calls = [wprintPage 7 1 (Some ''a.jpg'') False False, wprintPage 7 2 None True False]\<rparr>"
  have a: "5 \<le> MAX_PRINT_SCALING_LENGTH ?H" by simp
  have b: "5 \<le> sizeof_params_print_scaling ?H" by simp
  have c: "length (print_scaling_default ?C) < sizeof_print_scaling_default ?H" by simp
  have d: "length (print_scaling_default ?C) < MAX_PRINT_SCALING_LENGTH ?H" by simp
  have e: "length (print_scaling_default ?C) < sizeof_params_print_scaling ?H" by simp
  have run: "nativeStartJob ?H ?X (\<lambda>i j. 0) (Some ''image/jpeg'') ?J ?P ?C [Some ''a.jpg'']
               = Inr ?out"
    by (simp add: nativeStartJob_def not_pdf_documents [where fileArray = "[a]" for a, simplified]
      smart_duplex_def set_print_scaling_def choose_print_scaling_def strlcpy_def
      strcasecmp_eq_def submit_job_def send_documents.simps send_document_def is_pdf_doc_def
      length_initial_rows)
  show ?thesis
    using scaling_policy_selector [OF a b c d e, where X = ?X and jobParams = ?J and params = ?P
        and fileArray = "[Some ''a.jpg'']" and stack = "\<lambda>i j. 0" and mime = "Some ''image/jpeg''"
        and out = ?out] run
    by (simp add: strcasecmp_eq_def)
qed

lemma first_reason_in_chain:
  "first_reason H chain reasons = Some s \<Longrightarrow> s \<in> snd ` set chain"
  by (induction chain) (auto split: if_splits)

lemma process_reasons_in_chain:
  "set (process_reasons H chain bits reasons) \<subseteq> snd ` set chain"
proof (induction bits arbitrary: reasons)
  case Nil
  then show ?case by simp
next
  case (Cons i bits)
  show ?case
    using Cons.IH [of "reasons AND NOT (push_bit i 1)"]
    by (auto split: option.splits if_splits dest: first_reason_in_chain)
qed

lemma string_array_entries:
  "s \<in> set (string_array count found) \<Longrightarrow> s \<noteq> [] \<Longrightarrow> s \<in> set found"
  by (auto simp: string_array_def dest: in_set_takeD)

text \<open>
  Claim C6. The dispatcher takes the bound and the decoder of the failed reasons
  exactly when the state is \<open>JOB_DONE\<close> and the result is \<open>ERROR\<close> or \<open>CORRUPT\<close>; in every
  other case (a done job that is cancelled, has a bad certificate or any other result,
  and every state that is not done, \<open>JOB_BLOCKED\<close> among them) it takes the bound and the
  decoder of the blocked reasons. The reasons it reports are what that decoder returns,
  so every reason string of a done job with result \<open>ERROR\<close> is selected by the chain of
  \<open>processFailReasons\<close>.
\<close>

theorem failed_reasons_only_for_error_and_corrupt:
  "(print_job_failed cb_param =
      (state cb_param = JOB_DONE
       \<and> (job_done_result cb_param = ERROR \<or> job_done_result cb_param = CORRUPT)))
   \<and> max_value_reasons H cb_param =
       (if state cb_param = JOB_DONE
           \<and> (job_done_result cb_param = ERROR \<or> job_done_result cb_param = CORRUPT)
        then IPP_JOB_STATE_REASON_MAX_VALUE H else PRINT_STATUS_MAX_STATE H)
   \<and> reason_strings H cb_param =
       (if count_reasons H cb_param = 0 then None
        else if state cb_param = JOB_DONE
           \<and> (job_done_result cb_param = ERROR \<or> job_done_result cb_param = CORRUPT)
        then Some (processFailReasons H (blocked_reasons cb_param) (count_reasons H cb_param))
        else Some (processBlockStatus H (blocked_reasons cb_param) (count_reasons H cb_param)))
   \<and> (\<exists>params. wprint_callback_fn H job_handle (Some cb_param) = Some params
         \<and> blockedReasons params = reason_strings H cb_param)
   \<and> (state cb_param = JOB_DONE \<and> job_done_result cb_param = ERROR
        \<and> reason_strings H cb_param = Some reasons \<and> s \<in> set reasons \<and> s \<noteq> []
       \<longrightarrow> s \<in> snd ` set fail_reason_chain)"
proof -
  have failed: "print_job_failed cb_param =
      (state cb_param = JOB_DONE
       \<and> (job_done_result cb_param = ERROR \<or> job_done_result cb_param = CORRUPT))"
    by (cases "state cb_param"; cases "job_done_result cb_param")
       (simp_all add: print_job_failed_def)
  have bound: "max_value_reasons H cb_param =
       (if state cb_param = JOB_DONE
           \<and> (job_done_result cb_param = ERROR \<or> job_done_result cb_param = CORRUPT)
        then IPP_JOB_STATE_REASON_MAX_VALUE H else PRINT_STATUS_MAX_STATE H)"
    by (simp add: max_value_reasons_def failed)
  have table: "reason_strings H cb_param =
       (if count_reasons H cb_param = 0 then None
        else if state cb_param = JOB_DONE
           \<and> (job_done_result cb_param = ERROR \<or> job_done_result cb_param = CORRUPT)
        then Some (processFailReasons H (blocked_reasons cb_param) (count_reasons H cb_param))
        else Some (processBlockStatus H (blocked_reasons cb_param) (count_reasons H cb_param)))"
    by (simp add: reason_strings_def failed)
  have cb: "\<exists>params. wprint_callback_fn H job_handle (Some cb_param) = Some params
         \<and> blockedReasons params = reason_strings H cb_param"
    by (simp add: wprint_callback_fn_def)
  have drawn: "state cb_param = JOB_DONE \<and> job_done_result cb_param = ERROR
        \<and> reason_strings H cb_param = Some reasons \<and> s \<in> set reasons \<and> s \<noteq> []
       \<longrightarrow> s \<in> snd ` set fail_reason_chain"
  proof
    assume a: "state cb_param = JOB_DONE \<and> job_done_result cb_param = ERROR
        \<and> reason_strings H cb_param = Some reasons \<and> s \<in> set reasons \<and> s \<noteq> []"
    then have "reasons = processFailReasons H (blocked_reasons cb_param) (count_reasons H cb_param)"
      using table by (simp split: if_splits)
    with a have "s \<in> set (process_reasons H fail_reason_chain
                   [0..<IPP_JOB_STATE_REASON_MAX_VALUE H] (blocked_reasons cb_param))"
      by (auto simp: processFailReasons_def dest: string_array_entries)
    then show "s \<in> snd ` set fail_reason_chain"
      using process_reasons_in_chain by blast
  qed
  from failed bound table cb drawn show ?thesis by blast
qed

text \<open>
  The theorem at a done job with result \<open>ERROR\<close> whose reason bit 4 is the mask of the
  unsupported document format among the failed reasons and of an empty ink supply among
  the blocked reasons.
\<close>

theorem failed_reasons_only_for_error_and_corrupt_witness:
  "wprint_callback_fn
      \<lparr>MIME_TYPE_PDF = ''application/pdf'', PRINT_FORMAT_PDF = ''PDF'',
         MAX_PRINT_SCALING_LENGTH = 32, sizeof_print_scaling_default = 32,
         sizeof_params_print_scaling = 32, IPP_JOB_STATE_REASON_MAX_VALUE = 17,
         PRINT_STATUS_MAX_STATE = 50,
         reason_mask = (\<lambda>m. if m = ''JOB_FAIL_REASON_UNSUPPORTED_DOCUMENT_FORMAT'' then 16
                             else if m = ''BLOCKED_REASON_OUT_OF_INK'' then 16 else 0),
         int_shift_undefined = (\<lambda>i. 0)\<rparr> 7
      (Some \<lparr>state = JOB_DONE, job_done_result = ERROR, blocked_reasons = 16,
             certificate = None\<rparr>)
    = Some \<lparr>jobId = 7, jobState = ''JOB_STATE_DONE'', jobDoneResult = Some ''JOB_DONE_ERROR'',
            blockedReasons = Some [''JOB_FAIL_REASON__UNSUPPORTED_DOCUMENT_FORMAT''],
            callback_certificate = None\<rparr>
   \<and> ''JOB_FAIL_REASON__UNSUPPORTED_DOCUMENT_FORMAT'' \<in> snd ` set fail_reason_chain"
proof -
  let ?H = "\<lparr>MIME_TYPE_PDF = ''application/pdf'', PRINT_FORMAT_PDF = ''PDF'',
         MAX_PRINT_SCALING_LENGTH = 32, sizeof_print_scaling_default = 32,
         sizeof_params_print_scaling = 32, IPP_JOB_STATE_REASON_MAX_VALUE = 17,
         PRINT_STATUS_MAX_STATE = 50,
         reason_mask = (\<lambda>m. if m = ''JOB_FAIL_REASON_UNSUPPORTED_DOCUMENT_FORMAT'' then 16
                             else if m = ''BLOCKED_REASON_OUT_OF_INK'' then 16 else 0),
         int_shift_undefined = (\<lambda>i. 0)\<rparr>"
  let ?cb = "\<lparr>state = JOB_DONE, job_done_result = ERROR, blocked_reasons = 16,
             certificate = None\<rparr>"
  have cb: "wprint_callback_fn ?H 7 (Some ?cb)
    = Some \<lparr>jobId = 7, jobState = ''JOB_STATE_DONE'', jobDoneResult = Some ''JOB_DONE_ERROR'',
            blockedReasons = Some [''JOB_FAIL_REASON__UNSUPPORTED_DOCUMENT_FORMAT''],
            callback_certificate = None\<rparr>"
    by code_simp
  then have rs: "reason_strings ?H ?cb = Some [''JOB_FAIL_REASON__UNSUPPORTED_DOCUMENT_FORMAT'']"
    by (simp add: wprint_callback_fn_def)
  show ?thesis
    using failed_reasons_only_for_error_and_corrupt [where H = ?H and cb_param = ?cb
        and reasons = "[''JOB_FAIL_REASON__UNSUPPORTED_DOCUMENT_FORMAT'']"
        and s = "''JOB_FAIL_REASON__UNSUPPORTED_DOCUMENT_FORMAT''" and job_handle = 7] cb rs
    by simp
qed

end
